theory Spec2Isabelle
  imports Complex_Main
begin

section \<open>The spectral analysis engine of FreqWindow.cpp\<close>

text \<open>
  The class \<open>SpectrumAnalyst\<close> turns a block of samples into a curve
  (\<open>Calculate\<close>) and answers queries on the stored curve
  (\<open>GetProcessedSize\<close>, \<open>GetProcessedValue\<close>, \<open>FindPeak\<close>), with the two
  cubic helpers \<open>CubicInterpolate\<close> and \<open>CubicMaximize\<close>.

  Numbers. \<open>Calculate\<close> is read over exact reals: its statements say which operations
  reach which bins, and the kernels that produce the numbers are parameters. The queries
  and the cubic helpers compare, truncate and divide computed values, so they are read
  over floating numbers with signed zeros, infinities and NaN, under a rounding that is
  a parameter: every operation is rounded on its own, in the type that the conversion
  rules of C++ give it (no fused multiply-add, no excess precision). The stored curve
  holds finite values. \<open>size_t\<close> is \<open>nat\<close> and \<open>int\<close> is \<open>int\<close>: the window size is
  at most 65536 after validation, and the counters of \<open>Calculate\<close> stay below the
  number of samples, so no counter wraps for a buffer that fits in memory; in the
  queries a cast to \<open>int\<close> or an \<open>int\<close> sum that leaves the 32 bits is undefined
  behaviour.

  Buffers. \<open>std::vector<float> mProcessed\<close> is a list. The raw arrays (\<open>Floats\<close>, and
  the input \<open>const float *data\<close> with its separate length) are functions from the
  index to the entry; the source reads them below their size only.
\<close>

subsection \<open>Data model\<close>

text \<open>
  Modelled from the spec: the declaration of \<open>enum Algorithm\<close> is in FreqWindow.h, which
  is not among the sources; the spec lists the five variants in this order, and
  \<open>NumAlgorithms\<close> closes the enumeration. \<open>Algorithm_of\<close> reads an enumeration
  value that has passed validation.
\<close>

datatype Algorithm =
  Spectrum | Autocorrelation | CubeRootAutocorrelation | EnhancedAutocorrelation | Cepstrum

definition NumAlgorithms :: int where
  "NumAlgorithms = 5"

definition Algorithm_of :: "int \<Rightarrow> Algorithm" where
  "Algorithm_of a =
     [Spectrum, Autocorrelation, CubeRootAutocorrelation, EnhancedAutocorrelation, Cepstrum]
       ! nat a"

type_synonym Floats = "nat \<Rightarrow> real"

record SpectrumAnalyst =
  mAlg :: Algorithm
  mRate :: real
  mWindowSize :: nat
  mProcessed :: "real list"

text \<open>The constructor: \<open>mAlg(Spectrum)\<close>, \<open>mRate(0.0)\<close>, \<open>mWindowSize(0)\<close>, an empty vector.\<close>

definition SpectrumAnalyst_new :: SpectrumAnalyst where
  "SpectrumAnalyst_new = \<lparr>mAlg = Spectrum, mRate = 0, mWindowSize = 0, mProcessed = []\<rparr>"

text \<open>
  The math kernels of FFT.cpp are not among the sources; \<open>Calculate\<close> only calls them,
  so they are parameters. Each kernel returns the contents of its output array(s).
  \<open>InverseRealFFT\<close> is called with a null imaginary input.
\<close>

record kernels =
  NumWindowFuncs :: int
  WindowFunc :: "int \<Rightarrow> nat \<Rightarrow> Floats \<Rightarrow> Floats"
  PowerSpectrum :: "nat \<Rightarrow> Floats \<Rightarrow> Floats"
  RealFFT :: "nat \<Rightarrow> Floats \<Rightarrow> Floats \<times> Floats"
  InverseRealFFT :: "nat \<Rightarrow> Floats \<Rightarrow> Floats"

datatype CalcResult =
  ReturnFalse
  | ReturnTrue (yMin: real) (yMax: real)

subsection \<open>Loops over arrays\<close>

text \<open>\<open>for (i = 0; i < n; i++) buf[i] = f(i, buf[i])\<close> on a raw array.\<close>

definition for_floats :: "nat \<Rightarrow> (nat \<Rightarrow> real \<Rightarrow> real) \<Rightarrow> Floats \<Rightarrow> Floats" where
  "for_floats n f buf = fold (\<lambda>i b. b(i := f i (b i))) [0..<n] buf"

text \<open>\<open>for (i = 0; i < n; i++) v[i] = f(i, v[i])\<close> on the vector.\<close>

definition for_vector :: "nat \<Rightarrow> (nat \<Rightarrow> real \<Rightarrow> real) \<Rightarrow> real list \<Rightarrow> real list" where
  "for_vector n f v = fold (\<lambda>i p. p[i := f i (p ! i)]) [0..<n] v"

text \<open>
  The min/max scan of the source, one step:
  \<open>if (v > mYMax) mYMax = v; else if (v < mYMin) mYMin = v;\<close>
\<close>

definition minmax_step :: "real \<Rightarrow> real \<times> real \<Rightarrow> real \<times> real" where
  "minmax_step v m =
     (if v > snd m then (fst m, v) else if v < fst m then (v, snd m) else m)"

text \<open>\<open>for (i = lo; i < hi; i++)\<close> of that step over the vector.\<close>

definition minmax_scan :: "real list \<Rightarrow> nat \<Rightarrow> nat \<Rightarrow> real \<times> real \<Rightarrow> real \<times> real" where
  "minmax_scan p lo hi m = fold (\<lambda>i. minmax_step (p ! i)) [lo..<hi] m"

subsection \<open>Calculate: the windowing loop\<close>

text \<open>\<open>in[i] = win[i] * data[start + i]\<close> for \<open>i < mWindowSize\<close>, on a fresh array.\<close>

definition window_frame :: "nat \<Rightarrow> Floats \<Rightarrow> Floats \<Rightarrow> nat \<Rightarrow> Floats" where
  "window_frame ws win data start =
     for_floats ws (\<lambda>i _. win i * data (start + i)) (\<lambda>_. 0)"

text \<open>
  The body of \<open>switch (alg)\<close> inside the loop, up to the array that is added to the
  curve. \<open>alg\<close> has passed validation, so the \<open>default\<close> branch is not reached.
\<close>

fun transform :: "kernels \<Rightarrow> Algorithm \<Rightarrow> nat \<Rightarrow> Floats \<Rightarrow> Floats" where
  "transform k Spectrum ws inb = PowerSpectrum k ws inb"
| "transform k Cepstrum ws inb =
     (let (out, out2) = RealFFT k ws inb;
          minpower = 1 / 10 ^ 20 * real ws * real ws;
          in1 = for_floats ws
                  (\<lambda>i _. let power = out i * out i + out2 i * out2 i
                          in if power < minpower then ln minpower else ln power) inb
      in InverseRealFFT k ws in1)"
| "transform k alg ws inb =
     (let (out, out2) = RealFFT k ws inb;
          in1 = for_floats ws (\<lambda>i _. out i * out i + out2 i * out2 i) inb;
          in2 = (if alg = Autocorrelation then for_floats ws (\<lambda>i x. sqrt x) in1 else in1);
          in3 = (if alg = CubeRootAutocorrelation \<or> alg = EnhancedAutocorrelation
                 then for_floats ws (\<lambda>i x. x powr (1 / 3)) in2 else in2)
      in fst (RealFFT k ws in3))"

text \<open>\<open>for (i = 0; i < half; i++) mProcessed[i] += out[i];\<close>\<close>

definition accumulate :: "nat \<Rightarrow> Floats \<Rightarrow> real list \<Rightarrow> real list" where
  "accumulate half out p = for_vector half (\<lambda>i x. x + out i) p"

text \<open>
  \<open>while (start + mWindowSize <= dataLen) { ...; start += half; windows++; }\<close>
  The loop does not end when \<open>half\<close> is zero, so it is a partial function: \<open>None\<close> is
  "does not return".
\<close>

partial_function (option) window_loop ::
  "kernels \<Rightarrow> Algorithm \<Rightarrow> nat \<Rightarrow> Floats \<Rightarrow> Floats \<Rightarrow> nat \<Rightarrow> nat \<Rightarrow> int \<Rightarrow> real list
     \<Rightarrow> (int \<times> real list) option" where
  "window_loop k alg ws win data dataLen start windows p =
     (if start + ws \<le> dataLen
      then window_loop k alg ws win data dataLen (start + ws div 2) (windows + 1)
             (accumulate (ws div 2) (transform k alg ws (window_frame ws win data start)) p)
      else Some (windows, p))"

subsection \<open>Calculate: post-processing\<close>

text \<open>The second \<open>switch (alg)\<close>: the final curve with \<open>(mYMin, mYMax)\<close>.\<close>

definition post_Spectrum :: "nat \<Rightarrow> real \<Rightarrow> int \<Rightarrow> real list \<Rightarrow> real list \<times> real \<times> real" where
  "post_Spectrum half wss windows p =
     (let scale = wss / real_of_int windows
      in fold (\<lambda>i (p, m). let p' = p[i := 10 * log 10 (p ! i * scale)]
                           in (p', minmax_step (p' ! i) m))
           [0..<half] (p, (1000000, - 1000000)))"

definition post_Autocorrelation :: "nat \<Rightarrow> int \<Rightarrow> real list \<Rightarrow> real list \<times> real \<times> real" where
  "post_Autocorrelation half windows p =
     (let p1 = for_vector half (\<lambda>i x. x / real_of_int windows) p
      in (p1, minmax_scan p1 1 half (p1 ! 0, p1 ! 0)))"

definition clip_copy :: "nat \<Rightarrow> real list \<times> Floats \<Rightarrow> real list \<times> Floats" where
  "clip_copy half po =
     fold (\<lambda>i (p, out). let p' = (if p ! i < 0 then p[i := 0] else p)
                         in (p', out(i := p' ! i)))
       [0..<half] po"

definition post_EnhancedAutocorrelation ::
  "nat \<Rightarrow> int \<Rightarrow> real list \<Rightarrow> real list \<times> real \<times> real" where
  "post_EnhancedAutocorrelation half windows p =
     (let p1 = for_vector half (\<lambda>i x. x / real_of_int windows) p;
          (p2, out) = clip_copy half (p1, (\<lambda>_. 0));
          p3 = for_vector half
                 (\<lambda>i x. if i mod 2 = 0 then x - out (i div 2)
                         else x - (out (i div 2) + out (i div 2 + 1)) / 2) p2;
          p4 = for_vector half (\<lambda>i x. if x < 0 then 0 else x) p3
      in (p4, minmax_scan p4 1 half (p4 ! 0, p4 ! 0)))"

definition post_Cepstrum :: "nat \<Rightarrow> int \<Rightarrow> real list \<Rightarrow> real list \<times> real \<times> real" where
  "post_Cepstrum half windows p =
     (let p1 = for_vector half (\<lambda>i x. x / real_of_int windows) p;
          ignore = 4
      in (p1, minmax_scan p1 (ignore + 1) (half - ignore) (p1 ! ignore, p1 ! ignore)))"

fun post_process ::
  "Algorithm \<Rightarrow> nat \<Rightarrow> real \<Rightarrow> int \<Rightarrow> real list \<Rightarrow> real list \<times> real \<times> real" where
  "post_process Spectrum half wss windows p = post_Spectrum half wss windows p"
| "post_process Autocorrelation half wss windows p = post_Autocorrelation half windows p"
| "post_process CubeRootAutocorrelation half wss windows p =
     post_Autocorrelation half windows p"
| "post_process EnhancedAutocorrelation half wss windows p =
     post_EnhancedAutocorrelation half windows p"
| "post_process Cepstrum half wss windows p = post_Cepstrum half windows p"

subsection \<open>Calculate\<close>

text \<open>The validation test of the source, as written.\<close>

definition valid_inputs :: "kernels \<Rightarrow> int \<Rightarrow> int \<Rightarrow> nat \<Rightarrow> bool" where
  "valid_inputs k alg windowFunc windowSize \<longleftrightarrow>
     windowSize \<ge> 32 \<and> windowSize \<le> 65536 \<and>
     alg \<ge> 0 \<and> alg < NumAlgorithms \<and>
     windowFunc \<ge> 0 \<and> windowFunc < NumWindowFuncs k"

text \<open>The window array after \<open>WindowFunc\<close>, and the scale factor \<open>wss\<close>.\<close>

definition window_coeffs :: "kernels \<Rightarrow> int \<Rightarrow> nat \<Rightarrow> Floats" where
  "window_coeffs k windowFunc ws = WindowFunc k windowFunc ws (for_floats ws (\<lambda>i _. 1) (\<lambda>_. 0))"

definition window_scale :: "nat \<Rightarrow> Floats \<Rightarrow> real" where
  "window_scale ws win =
     (let wss = fold (\<lambda>i a. a + win i) [0..<ws] 0
      in if wss > 0 then 4 / (wss * wss) else 1)"

text \<open>
  \<open>Calculate\<close>. The result is \<open>None\<close> when the call does not return. The progress
  gauge is left out: it only draws.
\<close>

definition Calculate ::
  "kernels \<Rightarrow> SpectrumAnalyst \<Rightarrow> int \<Rightarrow> int \<Rightarrow> nat \<Rightarrow> real \<Rightarrow> Floats \<Rightarrow> nat
     \<Rightarrow> (CalcResult \<times> SpectrumAnalyst) option" where
  "Calculate k s alg windowFunc windowSize rate data dataLen =
     (let s0 = s\<lparr>mProcessed := [], mRate := 0, mWindowSize := 0\<rparr>
      in if \<not> valid_inputs k alg windowFunc windowSize then Some (ReturnFalse, s0)
         else if dataLen < windowSize then Some (ReturnFalse, s0)
         else
           let a = Algorithm_of alg;
               s1 = s0\<lparr>mRate := rate, mWindowSize := windowSize, mAlg := a\<rparr>;
               half = windowSize div 2;
               p0 = replicate windowSize 0;
               win = window_coeffs k windowFunc windowSize;
               wss = window_scale windowSize win
           in case window_loop k a windowSize win data dataLen 0 0 p0 of
                None \<Rightarrow> None
              | Some (windows, p) \<Rightarrow>
                  (case post_process a half wss windows p of
                     (p', mn, mx) \<Rightarrow> Some (ReturnTrue mn mx, s1\<lparr>mProcessed := p'\<rparr>)))"

definition GetProcessedSize :: "SpectrumAnalyst \<Rightarrow> int" where
  "GetProcessedSize s = int (length (mProcessed s) div 2)"

subsection \<open>Auxiliary definitions for the statements\<close>

text \<open>The value of each enumerator, in the order of the declaration.\<close>

fun enum_value :: "Algorithm \<Rightarrow> int" where
  "enum_value Spectrum = 0"
| "enum_value Autocorrelation = 1"
| "enum_value CubeRootAutocorrelation = 2"
| "enum_value EnhancedAutocorrelation = 3"
| "enum_value Cepstrum = 4"

text \<open>
  The curve after \<open>n\<close> rounds of the loop from \<open>start\<close>, and the number of
  rounds the loop makes from \<open>start\<close>.
\<close>

fun accumulated ::
  "kernels \<Rightarrow> Algorithm \<Rightarrow> nat \<Rightarrow> Floats \<Rightarrow> Floats \<Rightarrow> nat \<Rightarrow> nat \<Rightarrow> real list \<Rightarrow> real list" where
  "accumulated k alg ws win data start 0 p = p"
| "accumulated k alg ws win data start (Suc n) p =
     accumulated k alg ws win data (start + ws div 2) n
       (accumulate (ws div 2) (transform k alg ws (window_frame ws win data start)) p)"

definition windows_left :: "nat \<Rightarrow> nat \<Rightarrow> nat \<Rightarrow> nat" where
  "windows_left ws dataLen start =
     (if start + ws \<le> dataLen then (dataLen - (start + ws)) div (ws div 2) + 1 else 0)"

text \<open>What a call that passes validation returns, with the loop replaced by its result.\<close>

definition Calculate_ok ::
  "kernels \<Rightarrow> SpectrumAnalyst \<Rightarrow> int \<Rightarrow> int \<Rightarrow> nat \<Rightarrow> real \<Rightarrow> Floats \<Rightarrow> nat \<Rightarrow> CalcResult \<times> SpectrumAnalyst" where
  "Calculate_ok k s alg windowFunc windowSize rate data dataLen =
     (let a = Algorithm_of alg;
          win = window_coeffs k windowFunc windowSize;
          pp = post_process a (windowSize div 2) (window_scale windowSize win)
                 (int (windows_left windowSize dataLen 0))
                 (accumulated k a windowSize win data 0 (windows_left windowSize dataLen 0)
                    (replicate windowSize 0))
      in (ReturnTrue (fst (snd pp)) (snd (snd pp)),
          s\<lparr>mProcessed := fst pp, mRate := rate, mWindowSize := windowSize, mAlg := a\<rparr>))"

text \<open>
  Stand-in kernels for running the model on concrete inputs: one rectangular window
  and transforms that copy their input. The theorems hold for every kernel.
\<close>

definition stub_kernels :: kernels where
  "stub_kernels =
     \<lparr>NumWindowFuncs = 1, WindowFunc = (\<lambda>_ _ w. w), PowerSpectrum = (\<lambda>_ b. b),
      RealFFT = (\<lambda>_ b. (b, (\<lambda>_. 0))), InverseRealFFT = (\<lambda>_ b. b)\<rparr>"

subsection \<open>The curve in the words of the specification\<close>

text \<open>
  The number of windows of length \<open>ws\<close> that fit into \<open>dataLen\<close> samples with hop
  \<open>ws / 2\<close>; the sum over these windows of what the transform of each window yields in
  bin \<open>i\<close>; that sum divided by the window count; for the enhanced autocorrelation, the
  averaged curve clipped at zero and its linearly interpolated time-doubled copy; for the
  cepstrum, the natural logarithm of the floored power of bin \<open>j\<close> of a frame.
\<close>

definition window_count :: "nat \<Rightarrow> nat \<Rightarrow> nat" where
  "window_count ws dataLen = (dataLen - ws) div (ws div 2) + 1"

definition accumulated_curve ::
  "kernels \<Rightarrow> Algorithm \<Rightarrow> int \<Rightarrow> nat \<Rightarrow> Floats \<Rightarrow> nat \<Rightarrow> nat \<Rightarrow> real" where
  "accumulated_curve k alg windowFunc ws data dataLen i =
     (\<Sum>w<window_count ws dataLen.
        transform k alg ws
          (window_frame ws (window_coeffs k windowFunc ws) data (w * (ws div 2))) i)"

definition averaged_curve ::
  "kernels \<Rightarrow> Algorithm \<Rightarrow> int \<Rightarrow> nat \<Rightarrow> Floats \<Rightarrow> nat \<Rightarrow> nat \<Rightarrow> real" where
  "averaged_curve k alg windowFunc ws data dataLen i =
     accumulated_curve k alg windowFunc ws data dataLen i / real (window_count ws dataLen)"

definition clipped_curve :: "kernels \<Rightarrow> int \<Rightarrow> nat \<Rightarrow> Floats \<Rightarrow> nat \<Rightarrow> nat \<Rightarrow> real" where
  "clipped_curve k windowFunc ws data dataLen i =
     max 0 (averaged_curve k EnhancedAutocorrelation windowFunc ws data dataLen i)"

definition time_doubled :: "kernels \<Rightarrow> int \<Rightarrow> nat \<Rightarrow> Floats \<Rightarrow> nat \<Rightarrow> nat \<Rightarrow> real" where
  "time_doubled k windowFunc ws data dataLen i =
     (if even i then clipped_curve k windowFunc ws data dataLen (i div 2)
      else (clipped_curve k windowFunc ws data dataLen (i div 2) +
            clipped_curve k windowFunc ws data dataLen (i div 2 + 1)) / 2)"

definition floored_log_power :: "kernels \<Rightarrow> nat \<Rightarrow> Floats \<Rightarrow> nat \<Rightarrow> real" where
  "floored_log_power k ws inb j =
     ln (max ((fst (RealFFT k ws inb) j)\<^sup>2 + (snd (RealFFT k ws inb) j)\<^sup>2)
             (1 / 10 ^ 20 * (real ws)\<^sup>2))"

subsection \<open>Single and double precision numbers\<close>

text \<open>
  A value of type \<open>float\<close> or \<open>double\<close> is an \<open>fl\<close>: \<open>Fin x\<close> is the finite number
  \<open>x\<close> (\<open>Fin 0\<close> the positive zero), \<open>NZero\<close> the negative zero, then the two
  infinities and NaN. How a real result is rounded into each of the two types is the
  parameter \<open>rounding\<close> of the model: \<open>to_single\<close> and \<open>to_double\<close> are applied to the
  exact result of an operation when it is not zero, and may overflow to an infinity or
  underflow to a zero. Nothing is assumed of them, so a statement with a free \<open>rounding\<close>
  holds for round-to-nearest as for any other mode. \<open>single_sqrt\<close> tells whether the call
  \<open>sqrt(discriminant)\<close> on a \<open>float\<close> resolves to the \<open>float\<close> overload or to the C
  function on \<open>double\<close>; the source includes \<open>math.h\<close> and both occur among compilers.
  \<open>exact_arithmetic\<close> rounds nothing: it runs the model on inputs at which no operation
  of the program rounds.
\<close>

datatype fl = Fin real | NZero | PInf | NInf | NaN

record rounding =
  to_single :: "real \<Rightarrow> fl"
  to_double :: "real \<Rightarrow> fl"
  single_sqrt :: bool

definition exact_arithmetic :: rounding where
  "exact_arithmetic = \<lparr>to_single = Fin, to_double = Fin, single_sqrt = True\<rparr>"

fun fnum :: "fl \<Rightarrow> real" where
  "fnum (Fin x) = x"
| "fnum NZero = 0"
| "fnum PInf = 0"
| "fnum NInf = 0"
| "fnum NaN = 0"

fun is_finite :: "fl \<Rightarrow> bool" where
  "is_finite (Fin x) = True"
| "is_finite NZero = True"
| "is_finite PInf = False"
| "is_finite NInf = False"
| "is_finite NaN = False"

text \<open>The sign bit.\<close>

fun is_neg :: "fl \<Rightarrow> bool" where
  "is_neg (Fin x) = (x < 0)"
| "is_neg NZero = True"
| "is_neg PInf = False"
| "is_neg NInf = True"
| "is_neg NaN = False"

definition zero_of :: "bool \<Rightarrow> fl" where
  "zero_of negative = (if negative then NZero else Fin 0)"

definition inf_of :: "bool \<Rightarrow> fl" where
  "inf_of negative = (if negative then NInf else PInf)"

fun fneg :: "fl \<Rightarrow> fl" where
  "fneg (Fin x) = (if x = 0 then NZero else Fin (- x))"
| "fneg NZero = Fin 0"
| "fneg PInf = NInf"
| "fneg NInf = PInf"
| "fneg NaN = NaN"

fun fabs :: "fl \<Rightarrow> fl" where
  "fabs (Fin x) = Fin \<bar>x\<bar>"
| "fabs NZero = Fin 0"
| "fabs PInf = PInf"
| "fabs NInf = PInf"
| "fabs NaN = NaN"

text \<open>
  The four operations and the square root, with the rounding \<open>rnd\<close> of the type in which
  the operation is done. An exact zero result takes its sign by the rules of IEEE 754;
  a quotient by a zero is an infinity, or NaN when the dividend is a zero too.
\<close>

definition fadd :: "(real \<Rightarrow> fl) \<Rightarrow> fl \<Rightarrow> fl \<Rightarrow> fl" where
  "fadd rnd a b =
     (if a = NaN \<or> b = NaN then NaN
      else if a = PInf then (if b = NInf then NaN else PInf)
      else if a = NInf then (if b = PInf then NaN else NInf)
      else if b = PInf then PInf
      else if b = NInf then NInf
      else if fnum a + fnum b = 0 then zero_of (is_neg a \<and> is_neg b)
      else rnd (fnum a + fnum b))"

definition fsub :: "(real \<Rightarrow> fl) \<Rightarrow> fl \<Rightarrow> fl \<Rightarrow> fl" where
  "fsub rnd a b = fadd rnd a (fneg b)"

definition fmul :: "(real \<Rightarrow> fl) \<Rightarrow> fl \<Rightarrow> fl \<Rightarrow> fl" where
  "fmul rnd a b =
     (if a = NaN \<or> b = NaN then NaN
      else if \<not> is_finite a \<or> \<not> is_finite b
      then (if (is_finite a \<and> fnum a = 0) \<or> (is_finite b \<and> fnum b = 0) then NaN
            else inf_of (is_neg a \<noteq> is_neg b))
      else if fnum a * fnum b = 0 then zero_of (is_neg a \<noteq> is_neg b)
      else rnd (fnum a * fnum b))"

definition fdiv :: "(real \<Rightarrow> fl) \<Rightarrow> fl \<Rightarrow> fl \<Rightarrow> fl" where
  "fdiv rnd a b =
     (if a = NaN \<or> b = NaN then NaN
      else if \<not> is_finite a then (if \<not> is_finite b then NaN else inf_of (is_neg a \<noteq> is_neg b))
      else if \<not> is_finite b then zero_of (is_neg a \<noteq> is_neg b)
      else if fnum b = 0 then (if fnum a = 0 then NaN else inf_of (is_neg a \<noteq> is_neg b))
      else if fnum a = 0 then zero_of (is_neg a \<noteq> is_neg b)
      else rnd (fnum a / fnum b))"

fun fsqrt :: "(real \<Rightarrow> fl) \<Rightarrow> fl \<Rightarrow> fl" where
  "fsqrt rnd (Fin x) = (if x < 0 then NaN else if x = 0 then Fin 0 else rnd (sqrt x))"
| "fsqrt rnd NZero = NZero"
| "fsqrt rnd PInf = PInf"
| "fsqrt rnd NInf = NaN"
| "fsqrt rnd NaN = NaN"

text \<open>The comparisons \<open><\<close> and \<open><=\<close>: false as soon as one side is NaN.\<close>

definition flt :: "fl \<Rightarrow> fl \<Rightarrow> bool" where
  "flt a b \<longleftrightarrow>
     (if a = NaN \<or> b = NaN then False
      else if a = PInf \<or> b = NInf then False
      else if a = NInf \<or> b = PInf then True
      else fnum a < fnum b)"

definition fle :: "fl \<Rightarrow> fl \<Rightarrow> bool" where
  "fle a b \<longleftrightarrow> a \<noteq> NaN \<and> b \<noteq> NaN \<and> \<not> flt b a"

text \<open>
  Conversions. \<open>narrow\<close> stores a value in a type with the rounding \<open>rnd\<close>: a
  \<open>double\<close> in a \<open>float\<close> variable. An \<open>int\<close> or \<open>size_t\<close> operand of a floating
  operation is converted likewise. \<open>(int)\<close> of a floating value truncates toward zero,
  and is undefined when the truncated value is not an \<open>int\<close>, as is an \<open>int\<close> sum
  outside the 32 bits of \<open>int\<close>.
\<close>

fun narrow :: "(real \<Rightarrow> fl) \<Rightarrow> fl \<Rightarrow> fl" where
  "narrow rnd (Fin x) = (if x = 0 then Fin 0 else rnd x)"
| "narrow rnd NZero = NZero"
| "narrow rnd PInf = PInf"
| "narrow rnd NInf = NInf"
| "narrow rnd NaN = NaN"

definition single_of_int :: "rounding \<Rightarrow> int \<Rightarrow> fl" where
  "single_of_int r i = narrow (to_single r) (Fin (real_of_int i))"

definition double_of_int :: "rounding \<Rightarrow> int \<Rightarrow> fl" where
  "double_of_int r i = narrow (to_double r) (Fin (real_of_int i))"




definition to_int :: "real \<Rightarrow> int" where
  "to_int x = (if 0 \<le> x then \<lfloor>x\<rfloor> else \<lceil>x\<rceil>)"




subsection \<open>The cubic through four samples\<close>

text \<open>
  The three coefficient lines are shared by \<open>CubicInterpolate\<close> and \<open>CubicMaximize\<close>.
  Their right-hand sides mix \<open>float\<close> variables with \<open>double\<close> literals, so each
  operation is done in \<open>double\<close>, in the order the expression is parsed, and the result
  is stored in a \<open>float\<close>.
\<close>

definition cubic_a :: "rounding \<Rightarrow> fl \<Rightarrow> fl \<Rightarrow> fl \<Rightarrow> fl \<Rightarrow> fl" where
  "cubic_a r y0 y1 y2 y3 =
     narrow (to_single r)
       (fadd (to_double r)
          (fsub (to_double r)
             (fadd (to_double r) (fdiv (to_double r) y0 (Fin (- 6))) (fdiv (to_double r) y1 (Fin 2)))
             (fdiv (to_double r) y2 (Fin 2)))
          (fdiv (to_double r) y3 (Fin 6)))"

definition cubic_b :: "rounding \<Rightarrow> fl \<Rightarrow> fl \<Rightarrow> fl \<Rightarrow> fl \<Rightarrow> fl" where
  "cubic_b r y0 y1 y2 y3 =
     narrow (to_single r)
       (fsub (to_double r)
          (fadd (to_double r)
             (fsub (to_double r) y0
                (fdiv (to_double r) (fmul (to_double r) (Fin 5) y1) (Fin 2)))
             (fmul (to_double r) (Fin 2) y2))
          (fdiv (to_double r) y3 (Fin 2)))"

definition cubic_c :: "rounding \<Rightarrow> fl \<Rightarrow> fl \<Rightarrow> fl \<Rightarrow> fl \<Rightarrow> fl" where
  "cubic_c r y0 y1 y2 y3 =
     narrow (to_single r)
       (fadd (to_double r)
          (fsub (to_double r)
             (fadd (to_double r)
                (fdiv (to_double r) (fmul (to_double r) (Fin (- 11)) y0) (Fin 6))
                (fmul (to_double r) (Fin 3) y1))
             (fdiv (to_double r) (fmul (to_double r) (Fin 3) y2) (Fin 2)))
          (fdiv (to_double r) y3 (Fin 3)))"


text \<open>
  \<open>a * x * x * x + b * x * x + c * x + d\<close> in \<open>float\<close>, as \<open>CubicMaximize\<close> writes it
  for \<open>x1\<close> and for \<open>x2\<close>.
\<close>

definition cubic_at :: "rounding \<Rightarrow> fl \<Rightarrow> fl \<Rightarrow> fl \<Rightarrow> fl \<Rightarrow> fl \<Rightarrow> fl" where
  "cubic_at r a b c d x =
     fadd (to_single r)
       (fadd (to_single r)
          (fadd (to_single r)
             (fmul (to_single r) (fmul (to_single r) (fmul (to_single r) a x) x) x)
             (fmul (to_single r) (fmul (to_single r) b x) x))
          (fmul (to_single r) c x))
       d"

text \<open>
  The two root lines \<open>(-db \<plusminus> sqrt(discriminant)) / (2 * da)\<close>. With the \<open>float\<close> square
  root every operation is in \<open>float\<close>; with the one on \<open>double\<close> the sum and the
  quotient are in \<open>double\<close> and the quotient is stored in a \<open>float\<close>. The product
  \<open>2 * da\<close> is in \<open>float\<close> in both cases.
\<close>

definition root_rounding :: "rounding \<Rightarrow> real \<Rightarrow> fl" where
  "root_rounding r = (if single_sqrt r then to_single r else to_double r)"

definition root_store :: "rounding \<Rightarrow> fl \<Rightarrow> fl" where
  "root_store r x = (if single_sqrt r then x else narrow (to_single r) x)"

definition CubicMaximize :: "rounding \<Rightarrow> fl \<Rightarrow> fl \<Rightarrow> fl \<Rightarrow> fl \<Rightarrow> fl \<Rightarrow> fl \<times> fl" where
  "CubicMaximize r y0 y1 y2 y3 maxv =
     (let a = cubic_a r y0 y1 y2 y3; b = cubic_b r y0 y1 y2 y3; c = cubic_c r y0 y1 y2 y3;
          d = y0;
          da = fmul (to_single r) (Fin 3) a;
          db = fmul (to_single r) (Fin 2) b;
          dc = c;
          discriminant = fsub (to_single r) (fmul (to_single r) db db)
                           (fmul (to_single r) (fmul (to_single r) (Fin 4) da) dc)
      in if flt discriminant (Fin 0) then (Fin (- 1), maxv)
         else
           let x1 = root_store r
                      (fdiv (root_rounding r)
                         (fadd (root_rounding r) (fneg db) (fsqrt (root_rounding r) discriminant))
                         (fmul (to_single r) (Fin 2) da));
               x2 = root_store r
                      (fdiv (root_rounding r)
                         (fsub (root_rounding r) (fneg db) (fsqrt (root_rounding r) discriminant))
                         (fmul (to_single r) (Fin 2) da));
               dda = fmul (to_single r) (Fin 2) da;
               ddb = db
           in if flt (fadd (to_single r) (fmul (to_single r) dda x1) ddb) (Fin 0)
              then (x1, cubic_at r a b c d x1)
              else (x2, cubic_at r a b c d x2))"

subsection \<open>Queries on the stored curve\<close>



text \<open>
  The scan of \<open>FindPeak\<close> from \<open>bin\<close> on, with the flag \<open>up\<close> and the best candidate
  so far. Its indices stay inside the vector: \<open>bin + 1\<close> is below \<open>GetProcessedSize\<close>,
  half the length.
\<close>

function peak_scan ::
  "rounding \<Rightarrow> SpectrumAnalyst \<Rightarrow> fl \<Rightarrow> nat \<Rightarrow> bool \<Rightarrow> fl \<times> fl \<times> fl \<Rightarrow> fl \<times> fl \<times> fl" where
  "peak_scan r s xPos bin up (bestpeak, bestdist, bestValue) =
     (if int bin < GetProcessedSize s - 1
      then
        let nowUp = mProcessed s ! bin > mProcessed s ! (bin - 1)
        in if \<not> nowUp \<and> up
           then
             let leftbin = bin - 2;
                 valueAtMax = Fin 0;
                 (x, valueAtMax) =
                    CubicMaximize r (Fin (mProcessed s ! leftbin)) (Fin (mProcessed s ! (leftbin + 1)))
                      (Fin (mProcessed s ! (leftbin + 2))) (Fin (mProcessed s ! (leftbin + 3)))
                      valueAtMax;
                 maxv = fadd (to_single r) (single_of_int r (int leftbin)) x;
                 thispeak = (if mAlg s = Spectrum
                             then narrow (to_single r)
                                    (fdiv (to_double r) (fmul (to_double r) maxv (Fin (mRate s)))
                                       (double_of_int r (int (mWindowSize s))))
                             else narrow (to_single r) (fdiv (to_double r) maxv (Fin (mRate s))))
             in if flt (fabs (fsub (to_single r) thispeak xPos)) bestdist
                then (if flt xPos thispeak
                      then (thispeak, fabs (fsub (to_single r) thispeak xPos), valueAtMax)
                      else peak_scan r s xPos (bin + 1) nowUp
                             (thispeak, fabs (fsub (to_single r) thispeak xPos), valueAtMax))
                else peak_scan r s xPos (bin + 1) nowUp (bestpeak, bestdist, bestValue)
           else peak_scan r s xPos (bin + 1) nowUp (bestpeak, bestdist, bestValue)
      else (bestpeak, bestdist, bestValue))"
  by pat_completeness auto
termination
  by (relation "measure (\<lambda>(r, s, xPos, bin, up, best). nat (GetProcessedSize s - 1 - int bin))")
    auto

declare peak_scan.simps [simp del]

definition FindPeak :: "rounding \<Rightarrow> SpectrumAnalyst \<Rightarrow> fl \<Rightarrow> fl \<times> fl" where
  "FindPeak r s xPos =
     (let bestpeak = Fin 0; bestValue = Fin 0
      in if GetProcessedSize s > 1
         then
           let up = mProcessed s ! 1 > mProcessed s ! 0;
               bestdist = Fin 1000000;
               (bestpeak, bestdist, bestValue) =
                  peak_scan r s xPos 3 up (bestpeak, bestdist, bestValue)
           in (bestpeak, bestValue)
         else (bestpeak, bestValue))"

text \<open>Four stored states for running the queries on concrete curves.\<close>

definition peak_state :: SpectrumAnalyst where
  "peak_state =
     \<lparr>mAlg = Autocorrelation, mRate = 1, mWindowSize = 32,
      mProcessed = [0, 0, 0, 0, 1, 1, 3, 4, 5, 6, 7, 8, 9, 10, 11, 12] @ replicate 16 0\<rparr>"

definition peaks_state :: SpectrumAnalyst where
  "peaks_state =
     \<lparr>mAlg = Autocorrelation, mRate = 1, mWindowSize = 32,
      mProcessed = [0, 0, 0, 2, 1, 0, 1, 1, 0, 3, 2, 3, 3, 5, 6, 7] @ replicate 16 0\<rparr>"



subsection \<open>The quantities that the statements on CubicMaximize name\<close>

text \<open>
  The computed values of \<open>da\<close>, \<open>db\<close>, the discriminant, the divisor \<open>2 * da\<close>, the
  two roots \<open>x1\<close> and \<open>x2\<close>, the tested sum \<open>dda * x + ddb\<close> and the root that the
  final test selects.
\<close>

definition cubic_da :: "rounding \<Rightarrow> fl \<Rightarrow> fl \<Rightarrow> fl \<Rightarrow> fl \<Rightarrow> fl" where
  "cubic_da r y0 y1 y2 y3 = fmul (to_single r) (Fin 3) (cubic_a r y0 y1 y2 y3)"

definition cubic_db :: "rounding \<Rightarrow> fl \<Rightarrow> fl \<Rightarrow> fl \<Rightarrow> fl \<Rightarrow> fl" where
  "cubic_db r y0 y1 y2 y3 = fmul (to_single r) (Fin 2) (cubic_b r y0 y1 y2 y3)"

definition cubic_discriminant :: "rounding \<Rightarrow> fl \<Rightarrow> fl \<Rightarrow> fl \<Rightarrow> fl \<Rightarrow> fl" where
  "cubic_discriminant r y0 y1 y2 y3 =
     fsub (to_single r)
       (fmul (to_single r) (cubic_db r y0 y1 y2 y3) (cubic_db r y0 y1 y2 y3))
       (fmul (to_single r) (fmul (to_single r) (Fin 4) (cubic_da r y0 y1 y2 y3))
          (cubic_c r y0 y1 y2 y3))"

definition root_divisor :: "rounding \<Rightarrow> fl \<Rightarrow> fl \<Rightarrow> fl \<Rightarrow> fl \<Rightarrow> fl" where
  "root_divisor r y0 y1 y2 y3 = fmul (to_single r) (Fin 2) (cubic_da r y0 y1 y2 y3)"

definition upper_root :: "rounding \<Rightarrow> fl \<Rightarrow> fl \<Rightarrow> fl \<Rightarrow> fl \<Rightarrow> fl" where
  "upper_root r y0 y1 y2 y3 =
     root_store r
       (fdiv (root_rounding r)
          (fadd (root_rounding r) (fneg (cubic_db r y0 y1 y2 y3))
             (fsqrt (root_rounding r) (cubic_discriminant r y0 y1 y2 y3)))
          (root_divisor r y0 y1 y2 y3))"

definition lower_root :: "rounding \<Rightarrow> fl \<Rightarrow> fl \<Rightarrow> fl \<Rightarrow> fl \<Rightarrow> fl" where
  "lower_root r y0 y1 y2 y3 =
     root_store r
       (fdiv (root_rounding r)
          (fsub (root_rounding r) (fneg (cubic_db r y0 y1 y2 y3))
             (fsqrt (root_rounding r) (cubic_discriminant r y0 y1 y2 y3)))
          (root_divisor r y0 y1 y2 y3))"

definition curvature_test :: "rounding \<Rightarrow> fl \<Rightarrow> fl \<Rightarrow> fl \<Rightarrow> fl \<Rightarrow> fl \<Rightarrow> bool" where
  "curvature_test r y0 y1 y2 y3 x \<longleftrightarrow>
     flt (fadd (to_single r) (fmul (to_single r) (root_divisor r y0 y1 y2 y3) x)
            (cubic_db r y0 y1 y2 y3))
       (Fin 0)"

definition chosen_root :: "rounding \<Rightarrow> fl \<Rightarrow> fl \<Rightarrow> fl \<Rightarrow> fl \<Rightarrow> fl" where
  "chosen_root r y0 y1 y2 y3 =
     (if curvature_test r y0 y1 y2 y3 (upper_root r y0 y1 y2 y3)
      then upper_root r y0 y1 y2 y3 else lower_root r y0 y1 y2 y3)"

definition is_zero :: "fl \<Rightarrow> bool" where
  "is_zero a \<longleftrightarrow> a = Fin 0 \<or> a = NZero"

text \<open>
  The cubic through the points \<open>(0, u0)\<close>, \<open>(1, u1)\<close>, \<open>(2, u2)\<close>, \<open>(3, u3)\<close> over the
  reals: its coefficients, its value, its first and second derivative, and the
  discriminant of the first derivative.
\<close>

definition fit_a :: "real \<Rightarrow> real \<Rightarrow> real \<Rightarrow> real \<Rightarrow> real" where
  "fit_a u0 u1 u2 u3 = - u0 / 6 + u1 / 2 - u2 / 2 + u3 / 6"

definition fit_b :: "real \<Rightarrow> real \<Rightarrow> real \<Rightarrow> real \<Rightarrow> real" where
  "fit_b u0 u1 u2 u3 = u0 - 5 * u1 / 2 + 2 * u2 - u3 / 2"

definition fit_c :: "real \<Rightarrow> real \<Rightarrow> real \<Rightarrow> real \<Rightarrow> real" where
  "fit_c u0 u1 u2 u3 = - 11 * u0 / 6 + 3 * u1 - 3 * u2 / 2 + u3 / 3"

definition fit_value :: "real \<Rightarrow> real \<Rightarrow> real \<Rightarrow> real \<Rightarrow> real \<Rightarrow> real" where
  "fit_value u0 u1 u2 u3 x =
     fit_a u0 u1 u2 u3 * x ^ 3 + fit_b u0 u1 u2 u3 * x ^ 2 + fit_c u0 u1 u2 u3 * x + u0"

definition fit_slope :: "real \<Rightarrow> real \<Rightarrow> real \<Rightarrow> real \<Rightarrow> real \<Rightarrow> real" where
  "fit_slope u0 u1 u2 u3 x =
     3 * fit_a u0 u1 u2 u3 * x ^ 2 + 2 * fit_b u0 u1 u2 u3 * x + fit_c u0 u1 u2 u3"

definition fit_curvature :: "real \<Rightarrow> real \<Rightarrow> real \<Rightarrow> real \<Rightarrow> real \<Rightarrow> real" where
  "fit_curvature u0 u1 u2 u3 x = 6 * fit_a u0 u1 u2 u3 * x + 2 * fit_b u0 u1 u2 u3"

definition fit_discriminant :: "real \<Rightarrow> real \<Rightarrow> real \<Rightarrow> real \<Rightarrow> real" where
  "fit_discriminant u0 u1 u2 u3 =
     (2 * fit_b u0 u1 u2 u3) * (2 * fit_b u0 u1 u2 u3) -
     4 * (3 * fit_a u0 u1 u2 u3) * fit_c u0 u1 u2 u3"

subsection \<open>FindPeak in the words of the specification\<close>

text \<open>
  \<open>rises p j\<close> is the test \<open>nowUp\<close> of the loop at \<open>bin = j\<close>. \<open>peak_bins\<close> are the
  bins of the scan, 3 to \<open>size - 2\<close>, into which the curve does not rise although it
  rose into the bin before. \<open>candidate\<close> is the converted position and the value that
  \<open>CubicMaximize\<close> gives for the four samples around the bin, \<open>distance\<close> its computed
  distance \<open>fabs(thispeak - xPos)\<close> to the query.
\<close>

definition rises :: "real list \<Rightarrow> nat \<Rightarrow> bool" where
  "rises p j \<longleftrightarrow> p ! j > p ! (j - 1)"

definition peak_bins :: "SpectrumAnalyst \<Rightarrow> nat list" where
  "peak_bins s =
     filter (\<lambda>bin. \<not> rises (mProcessed s) bin \<and> rises (mProcessed s) (bin - 1))
       [3..<nat (GetProcessedSize s - 1)]"

definition position_of :: "rounding \<Rightarrow> SpectrumAnalyst \<Rightarrow> fl \<Rightarrow> fl" where
  "position_of r s x =
     (if mAlg s = Spectrum
      then narrow (to_single r)
             (fdiv (to_double r) (fmul (to_double r) x (Fin (mRate s)))
                (double_of_int r (int (mWindowSize s))))
      else narrow (to_single r) (fdiv (to_double r) x (Fin (mRate s))))"

definition candidate :: "rounding \<Rightarrow> SpectrumAnalyst \<Rightarrow> nat \<Rightarrow> fl \<times> fl" where
  "candidate r s bin =
     (let (x, v) = CubicMaximize r (Fin (mProcessed s ! (bin - 2))) (Fin (mProcessed s ! (bin - 1)))
                     (Fin (mProcessed s ! bin)) (Fin (mProcessed s ! (bin + 1))) (Fin 0)
      in (position_of r s (fadd (to_single r) (single_of_int r (int (bin - 2))) x), v))"

definition distance :: "rounding \<Rightarrow> fl \<Rightarrow> fl \<times> fl \<Rightarrow> fl" where
  "distance r x c = fabs (fsub (to_single r) (fst c) x)"

text \<open>
  The candidates that the scan visits, in order, when the best distance so far is \<open>d\<close>:
  all of them up to and including the first one that is nearer to \<open>x\<close> than the best
  so far and lies above \<open>x\<close>.
\<close>

fun visited :: "rounding \<Rightarrow> fl \<Rightarrow> fl \<Rightarrow> (fl \<times> fl) list \<Rightarrow> (fl \<times> fl) list" where
  "visited r x d [] = []"
| "visited r x d (c # cs) =
     (if flt (distance r x c) d
      then (if flt x (fst c) then [c] else c # visited r x (distance r x c) cs)
      else c # visited r x d cs)"

text \<open>
  The selection of the loop on a list of candidates, and the bins flagged from \<open>bin\<close>
  on when the flag \<open>up\<close> has a given value: both serve the proofs.
\<close>

fun select_best :: "rounding \<Rightarrow> fl \<Rightarrow> (fl \<times> fl) list \<Rightarrow> fl \<times> fl \<times> fl \<Rightarrow> fl \<times> fl \<times> fl" where
  "select_best r x [] best = best"
| "select_best r x (c # cs) best =
     (if flt (distance r x c) (fst (snd best))
      then (if flt x (fst c) then (fst c, distance r x c, snd c)
            else select_best r x cs (fst c, distance r x c, snd c))
      else select_best r x cs best)"

definition flagged :: "SpectrumAnalyst \<Rightarrow> nat \<Rightarrow> bool \<Rightarrow> nat list" where
  "flagged s bin up =
     (if int bin < GetProcessedSize s - 1
      then (if \<not> rises (mProcessed s) bin \<and> up then [bin] else []) @
           filter (\<lambda>b. \<not> rises (mProcessed s) b \<and> rises (mProcessed s) (b - 1))
             [Suc bin..<nat (GetProcessedSize s - 1)]
      else [])"

text \<open>The indices from \<open>lo\<close> to \<open>hi\<close> whose sample is strictly greater than both neighbours.\<close>

definition strict_local_maxima :: "real list \<Rightarrow> nat \<Rightarrow> nat \<Rightarrow> nat list" where
  "strict_local_maxima p lo hi =
     filter (\<lambda>j. p ! j > p ! (j - 1) \<and> p ! j > p ! (j + 1)) [lo..<Suc hi]"

subsection \<open>GetProcessedValue in the words of the specification\<close>


















section \<open>Properties\<close>

subsection \<open>Array loops\<close>

lemma length_for_vector: "length (for_vector n f v) = length v"
  unfolding for_vector_def by (induction n) simp_all

lemma nth_for_vector:
  "n \<le> length v \<Longrightarrow> for_vector n f v ! j = (if j < n then f j (v ! j) else v ! j)"
proof (induction n)
  case 0
  then show ?case by (simp add: for_vector_def)
next
  case (Suc n)
  have step: "for_vector (Suc n) f v = (for_vector n f v)[n := f n (for_vector n f v ! n)]"
    by (simp add: for_vector_def)
  from Suc show ?case
    by (auto simp: step length_for_vector nth_list_update less_Suc_eq)
qed

lemma for_floats_apply: "for_floats n f b i = (if i < n then f i (b i) else b i)"
proof (induction n)
  case 0
  then show ?case by (simp add: for_floats_def)
next
  case (Suc n)
  have step: "for_floats (Suc n) f b = (for_floats n f b)(n := f n (for_floats n f b n))"
    by (simp add: for_floats_def)
  from Suc show ?case by (auto simp: step less_Suc_eq)
qed

lemma length_accumulate: "length (accumulate h out p) = length p"
  by (simp add: accumulate_def length_for_vector)

lemma nth_accumulate:
  "h \<le> length p \<Longrightarrow> accumulate h out p ! j = (if j < h then p ! j + out j else p ! j)"
  by (simp add: accumulate_def nth_for_vector)

subsection \<open>The windowing loop returns\<close>

lemma windows_left_step:
  assumes "0 < ws div 2" "start + ws \<le> dataLen"
  shows "windows_left ws dataLen start = Suc (windows_left ws dataLen (start + ws div 2))"
proof (cases "start + ws div 2 + ws \<le> dataLen")
  case True
  define r where "r = dataLen - (start + ws div 2 + ws)"
  have eq: "dataLen - (start + ws) = r + ws div 2"
    using True by (simp add: r_def)
  have "(r + ws div 2) div (ws div 2) = r div (ws div 2) + 1"
    using assms(1) by simp
  then show ?thesis
    using True assms(2) by (simp only: windows_left_def eq if_True) (simp add: r_def)
next
  case False
  then have "dataLen - (start + ws) < ws div 2" using assms by linarith
  then show ?thesis using False assms by (simp add: windows_left_def)
qed

lemma window_loop_returns:
  assumes h: "0 < ws div 2"
  shows "window_loop k alg ws win data dataLen start windows p =
           Some (windows + int (windows_left ws dataLen start),
                 accumulated k alg ws win data start (windows_left ws dataLen start) p)"
proof (induction n \<equiv> "windows_left ws dataLen start" arbitrary: start windows p)
  case 0
  then have "\<not> start + ws \<le> dataLen" by (simp add: windows_left_def split: if_splits)
  then show ?case using 0 [symmetric] by (subst window_loop.simps) simp
next
  case (Suc n)
  then have le: "start + ws \<le> dataLen" by (simp add: windows_left_def split: if_splits)
  have n: "n = windows_left ws dataLen (start + ws div 2)"
    using windows_left_step [OF h le] Suc.hyps(2) by simp
  have wl: "windows_left ws dataLen start = Suc (windows_left ws dataLen (start + ws div 2))"
    by (rule windows_left_step [OF h le])
  show ?case
    by (subst window_loop.simps) (simp add: le Suc.hyps(1) [OF n] wl)
qed

lemma length_accumulated: "length (accumulated k alg ws win data start n p) = length p"
  by (induction n arbitrary: start p) (simp_all add: length_accumulate)

lemma nth_accumulated:
  "ws div 2 \<le> length p \<Longrightarrow> i < ws div 2 \<Longrightarrow>
   accumulated k alg ws win data start n p ! i =
     p ! i + (\<Sum>w<n. transform k alg ws (window_frame ws win data (start + w * (ws div 2))) i)"
proof (induction n arbitrary: start p)
  case 0
  then show ?case by simp
next
  case (Suc n)
  let ?t = "\<lambda>s. transform k alg ws (window_frame ws win data s) i"
  let ?p = "accumulate (ws div 2) (transform k alg ws (window_frame ws win data start)) p"
  have shift: "(\<Sum>w<Suc n. ?t (start + w * (ws div 2))) =
        ?t start + (\<Sum>w<n. ?t (start + ws div 2 + w * (ws div 2)))"
    by (subst sum.lessThan_Suc_shift) (simp add: add.assoc)
  have "accumulated k alg ws win data start (Suc n) p ! i =
        ?p ! i + (\<Sum>w<n. ?t (start + ws div 2 + w * (ws div 2)))"
    using Suc.prems by (simp only: accumulated.simps Suc.IH length_accumulate)
  also have "?p ! i = p ! i + ?t start"
    using Suc.prems by (simp only: nth_accumulate if_True)
  finally show ?case by (simp only: shift add.assoc)
qed

subsection \<open>Calculate, case by case\<close>

lemma enum_value_range: "(\<exists>a. enum_value a = i) \<longleftrightarrow> 0 \<le> i \<and> i < NumAlgorithms"
proof
  assume "\<exists>a. enum_value a = i"
  then obtain a where "enum_value a = i" ..
  then show "0 \<le> i \<and> i < NumAlgorithms" by (cases a) (auto simp: NumAlgorithms_def)
next
  assume "0 \<le> i \<and> i < NumAlgorithms"
  then have "i = 0 \<or> i = 1 \<or> i = 2 \<or> i = 3 \<or> i = 4" by (auto simp: NumAlgorithms_def)
  then show "\<exists>a. enum_value a = i"
    by (metis enum_value.simps)
qed

lemma Algorithm_of_enum_value: "Algorithm_of (enum_value a) = a"
  by (cases a) (simp_all add: Algorithm_of_def)

lemma post_Spectrum_fold:
  "half \<le> length p \<Longrightarrow>
   fold (\<lambda>i (p, m). (p[i := f i (p ! i)], minmax_step (p[i := f i (p ! i)] ! i) m)) [0..<half] (p, m) =
     (for_vector half f p, minmax_scan (for_vector half f p) 0 half m)"
proof (induction half)
  case 0
  then show ?case by (simp add: for_vector_def minmax_scan_def)
next
  case (Suc h)
  have fv: "for_vector (Suc h) f p = (for_vector h f p)[h := f h (for_vector h f p ! h)]"
    by (simp add: for_vector_def)
  have same: "minmax_scan ((for_vector h f p)[h := x]) 0 h m = minmax_scan (for_vector h f p) 0 h m" for x
    unfolding minmax_scan_def by (rule fold_cong) (auto simp: nth_list_update)
  have last: "(for_vector h f p)[h := x] ! h = x" if "Suc h \<le> length p" for x
    using that by (simp add: length_for_vector)
  have scan: "minmax_scan q 0 (Suc h) m = minmax_step (q ! h) (minmax_scan q 0 h m)" for q
    by (simp add: minmax_scan_def)
  from Suc have IH: "fold (\<lambda>i (p, m). (p[i := f i (p ! i)], minmax_step (p[i := f i (p ! i)] ! i) m))
      [0..<h] (p, m) = (for_vector h f p, minmax_scan (for_vector h f p) 0 h m)"
    by simp
  show ?case
    using Suc.prems by (simp add: IH fv scan same last length_for_vector)
qed

lemma post_Spectrum_eq:
  "half \<le> length p \<Longrightarrow>
   post_Spectrum half wss windows p =
     (for_vector half (\<lambda>i x. 10 * log 10 (x * (wss / real_of_int windows))) p,
      minmax_scan (for_vector half (\<lambda>i x. 10 * log 10 (x * (wss / real_of_int windows))) p)
        0 half (1000000, - 1000000))"
  unfolding post_Spectrum_def Let_def
  by (rule post_Spectrum_fold)

lemma length_clip_copy: "length (fst (clip_copy h (p, out))) = length p"
  unfolding clip_copy_def
  by (induction h) (simp_all add: case_prod_beta Let_def)

lemma length_post_process:
  "half \<le> length p \<Longrightarrow> length (fst (post_process alg half wss windows p)) = length p"
  by (cases alg)
     (simp_all add: post_Spectrum_eq post_Autocorrelation_def
        post_EnhancedAutocorrelation_def post_Cepstrum_def Let_def length_for_vector
        case_prod_beta length_clip_copy)

lemma Calculate_invalid:
  "\<not> valid_inputs k alg windowFunc windowSize \<or> dataLen < windowSize \<Longrightarrow>
   Calculate k s alg windowFunc windowSize rate data dataLen =
     Some (ReturnFalse, s\<lparr>mProcessed := [], mRate := 0, mWindowSize := 0\<rparr>)"
  by (auto simp: Calculate_def Let_def)

lemma Calculate_valid:
  assumes "valid_inputs k alg windowFunc windowSize" "windowSize \<le> dataLen"
  shows "Calculate k s alg windowFunc windowSize rate data dataLen =
           Some (Calculate_ok k s alg windowFunc windowSize rate data dataLen)"
proof -
  have h: "0 < windowSize div 2" using assms(1) by (simp add: valid_inputs_def)
  show ?thesis
    using assms
    by (simp add: Calculate_def Calculate_ok_def window_loop_returns [OF h] Let_def
          case_prod_beta)
qed

lemma GetProcessedSize_ok:
  "GetProcessedSize (snd (Calculate_ok k s alg windowFunc windowSize rate data dataLen)) =
     int (windowSize div 2)"
  by (simp add: Calculate_ok_def GetProcessedSize_def Let_def length_post_process
        length_accumulated)

subsection \<open>The min/max scan\<close>

lemma minmax_step_ordered:
  "fst m \<le> snd m \<Longrightarrow> minmax_step v m = (min (fst m) v, max (snd m) v)"
  by (cases m) (auto simp: minmax_step_def)

lemma minmax_scan_ordered:
  "mn \<le> mx \<Longrightarrow> lo \<le> hi \<Longrightarrow>
   minmax_scan p lo hi (mn, mx) =
     (Min (insert mn ((!) p ` {lo..<hi})), Max (insert mx ((!) p ` {lo..<hi})))"
proof (induction hi)
  case 0
  then show ?case by (simp add: minmax_scan_def)
next
  case (Suc hi)
  show ?case
  proof (cases "lo = Suc hi")
    case True
    then show ?thesis by (simp add: minmax_scan_def)
  next
    case False
    with Suc.prems have le: "lo \<le> hi" by simp
    let ?S = "(!) p ` {lo..<hi}"
    have IH: "minmax_scan p lo hi (mn, mx) = (Min (insert mn ?S), Max (insert mx ?S))"
      using Suc.IH [OF Suc.prems(1) le] .
    have step: "minmax_scan p lo (Suc hi) (mn, mx) = minmax_step (p ! hi) (minmax_scan p lo hi (mn, mx))"
      using le by (simp add: minmax_scan_def)
    have ord: "Min (insert mn ?S) \<le> Max (insert mx ?S)"
    proof -
      have "Min (insert mn ?S) \<le> mn" by simp
      also have "mn \<le> mx" by (rule Suc.prems(1))
      also have "mx \<le> Max (insert mx ?S)" by simp
      finally show ?thesis .
    qed
    have set: "(!) p ` {lo..<Suc hi} = insert (p ! hi) ?S"
      using le by (simp add: atLeastLessThanSuc)
    have mn': "Min (insert mn (insert (p ! hi) ?S)) = min (Min (insert mn ?S)) (p ! hi)"
      by (simp add: insert_commute [of mn] min.commute)
    have mx': "Max (insert mx (insert (p ! hi) ?S)) = max (Max (insert mx ?S)) (p ! hi)"
      by (simp add: insert_commute [of mx] max.commute)
    show ?thesis
      using ord by (simp only: step IH set mn' mx' minmax_step_ordered fst_conv snd_conv)
  qed
qed

lemma minmax_scan_from_first:
  assumes "lo < hi"
  shows "minmax_scan p (Suc lo) hi (p ! lo, p ! lo) =
           (Min ((!) p ` {lo..<hi}), Max ((!) p ` {lo..<hi}))"
proof -
  have set: "insert (p ! lo) ((!) p ` {Suc lo..<hi}) = (!) p ` {lo..<hi}"
  proof -
    have "{lo..<hi} = insert lo {Suc lo..<hi}" using assms by auto
    then show ?thesis by simp
  qed
  have "Suc lo \<le> hi" using assms by simp
  from minmax_scan_ordered [where mn = "p ! lo" and mx = "p ! lo" and p = p, OF order_refl this]
  show ?thesis by (simp only: set)
qed

subsection \<open>Post-processing\<close>

lemma windows_left_0: "ws \<le> dataLen \<Longrightarrow> windows_left ws dataLen 0 = window_count ws dataLen"
  by (simp add: windows_left_def window_count_def)

lemma accumulated_nth_curve:
  assumes "ws \<le> dataLen" "i < ws div 2"
  shows "accumulated k alg ws (window_coeffs k windowFunc ws) data 0 (windows_left ws dataLen 0)
           (replicate ws 0) ! i = accumulated_curve k alg windowFunc ws data dataLen i"
proof -
  have "ws div 2 \<le> length (replicate ws (0::real))" by simp
  from nth_accumulated [OF this assms(2), of k alg "window_coeffs k windowFunc ws" data 0
      "windows_left ws dataLen 0"] assms
  show ?thesis by (simp add: accumulated_curve_def windows_left_0)
qed

lemma clip_copy_eq:
  "half \<le> length p \<Longrightarrow>
   clip_copy half (p, out) =
     (for_vector half (\<lambda>i x. if x < 0 then 0 else x) p,
      for_floats half (\<lambda>i _. if p ! i < 0 then 0 else p ! i) out)"
proof (induction half)
  case 0
  then show ?case by (simp add: clip_copy_def for_vector_def for_floats_def)
next
  case (Suc h)
  let ?c = "\<lambda>i x::real. if x < 0 then 0 else x"
  have IH: "clip_copy h (p, out) =
     (for_vector h ?c p, for_floats h (\<lambda>i _. if p ! i < 0 then 0 else p ! i) out)"
    using Suc by simp
  have step: "clip_copy (Suc h) (p, out) =
      (case clip_copy h (p, out) of (q, o') \<Rightarrow>
         let p' = (if q ! h < 0 then q[h := 0] else q) in (p', o'(h := p' ! h)))"
    by (simp add: clip_copy_def)
  have qh: "for_vector h ?c p ! h = p ! h"
    using Suc.prems by (simp add: nth_for_vector)
  have len: "h < length (for_vector h ?c p)" using Suc.prems by (simp add: length_for_vector)
  have fv: "for_vector (Suc h) ?c p = (for_vector h ?c p)[h := ?c h (for_vector h ?c p ! h)]"
    by (simp add: for_vector_def)
  have ff: "for_floats (Suc h) f out = (for_floats h f out)(h := f h (for_floats h f out h))" for f
    by (simp add: for_floats_def)
  have id: "(for_vector h ?c p)[h := p ! h] = for_vector h ?c p"
    using qh list_update_id [of "for_vector h ?c p" h] by simp
  have upd: "(for_vector h ?c p)[h := x] ! h = x" for x
    using len by simp
  show ?case
  proof (cases "p ! h < 0")
    case True
    then show ?thesis by (simp add: step IH qh fv ff upd fun_upd_def Let_def cong: if_cong)
  next
    case False
    then show ?thesis by (simp add: step IH qh fv ff id fun_upd_def Let_def cong: if_cong)
  qed
qed

lemma post_EnhancedAutocorrelation_nth:
  fixes windows :: int
  assumes "half \<le> length p" "i < half"
  defines "c \<equiv> \<lambda>j. max 0 (p ! j / real_of_int windows)"
  shows "fst (post_EnhancedAutocorrelation half windows p) ! i =
           max 0 (c i - (if even i then c (i div 2) else (c (i div 2) + c (i div 2 + 1)) / 2))"
proof -
  let ?p1 = "for_vector half (\<lambda>i x. x / real_of_int windows) p"
  let ?clip = "\<lambda>i x::real. if x < 0 then 0 else x"
  let ?out = "for_floats half (\<lambda>i _. if ?p1 ! i < 0 then 0 else ?p1 ! i) (\<lambda>_. 0)"
  have l1: "half \<le> length ?p1" using assms(1) by (simp add: length_for_vector)
  have cc: "clip_copy half (?p1, (\<lambda>_. 0)) = (for_vector half ?clip ?p1, ?out)"
    by (rule clip_copy_eq [OF l1])
  have out: "?out j = c j" if "j < half" for j
    using that assms(1) by (simp add: for_floats_apply nth_for_vector c_def max_def)
  have p2: "for_vector half ?clip ?p1 ! i = c i"
    using assms(1,2) l1 by (simp add: nth_for_vector c_def max_def)
  have j1: "i div 2 < half" using assms(2) by simp
  have j2: "i div 2 + 1 < half" if "odd i"
  proof -
    from that have "1 \<le> i" by (cases i) simp_all
    then have "i div 2 + 1 \<le> i" by simp
    then show ?thesis using assms(2) by simp
  qed
  let ?sub = "\<lambda>i x. if i mod 2 = 0 then x - ?out (i div 2)
                        else x - (?out (i div 2) + ?out (i div 2 + 1)) / 2"
  have l2: "half \<le> length (for_vector half ?clip ?p1)" using l1 by (simp add: length_for_vector)
  have l3: "half \<le> length (for_vector half ?sub (for_vector half ?clip ?p1))"
    using l2 by (simp add: length_for_vector)
  have "fst (post_EnhancedAutocorrelation half windows p) =
        for_vector half ?clip (for_vector half ?sub (for_vector half ?clip ?p1))"
    by (simp add: post_EnhancedAutocorrelation_def Let_def cc)
  then have "fst (post_EnhancedAutocorrelation half windows p) ! i =
        ?clip i (?sub i (c i))"
    using assms(2) l2 l3 by (simp only: nth_for_vector if_True p2)
  also have "\<dots> = max 0 (c i - (if even i then c (i div 2) else (c (i div 2) + c (i div 2 + 1)) / 2))"
  proof (cases "even i")
    case True
    then show ?thesis using out [OF j1] by (simp add: max_def even_iff_mod_2_eq_zero)
  next
    case False
    then show ?thesis using out [OF j1] out [OF j2 [OF False]]
      by (simp add: max_def even_iff_mod_2_eq_zero)
  qed
  finally show ?thesis .
qed

lemma post_EnhancedAutocorrelation_minmax:
  assumes "0 < half"
  shows "snd (post_EnhancedAutocorrelation half windows p) =
           (Min ((!) (fst (post_EnhancedAutocorrelation half windows p)) ` {0..<half}),
            Max ((!) (fst (post_EnhancedAutocorrelation half windows p)) ` {0..<half}))"
  using minmax_scan_from_first [OF assms]
  by (simp add: post_EnhancedAutocorrelation_def Let_def case_prod_beta)

lemma post_Cepstrum_nth:
  "half \<le> length p \<Longrightarrow> i < half \<Longrightarrow>
   fst (post_Cepstrum half windows p) ! i = p ! i / real_of_int windows"
  by (simp add: post_Cepstrum_def Let_def nth_for_vector)

lemma post_Cepstrum_minmax:
  assumes "4 < half - 4"
  shows "snd (post_Cepstrum half windows p) =
           (Min ((!) (fst (post_Cepstrum half windows p)) ` {4..<half - 4}),
            Max ((!) (fst (post_Cepstrum half windows p)) ` {4..<half - 4}))"
  using minmax_scan_from_first [OF assms]
  by (simp add: post_Cepstrum_def Let_def)

lemma transform_Cepstrum:
  "\<exists>L. transform k Cepstrum ws inb = InverseRealFFT k ws L \<and>
       (\<forall>j<ws. L j = floored_log_power k ws inb j)"
proof -
  obtain out out2 where r: "RealFFT k ws inb = (out, out2)" by (cases "RealFFT k ws inb")
  let ?minpower = "1 / 10 ^ 20 * real ws * real ws"
  let ?L = "for_floats ws
              (\<lambda>i _. let power = out i * out i + out2 i * out2 i
                      in if power < ?minpower then ln ?minpower else ln power) inb"
  have "transform k Cepstrum ws inb = InverseRealFFT k ws ?L"
    by (simp only: transform.simps r Let_def prod.case)
  moreover have "?L j = floored_log_power k ws inb j" if "j < ws" for j
  proof -
    have gen: "(if P < M then ln M else ln P) = ln (max P M)" for P M :: real
      by (auto simp: max_def)
    have "?L j = (if out j * out j + out2 j * out2 j < ?minpower then ln ?minpower
                  else ln (out j * out j + out2 j * out2 j))"
      using that by (simp only: for_floats_apply Let_def if_True)
    also have "\<dots> = ln (max (out j * out j + out2 j * out2 j) ?minpower)"
      by (rule gen)
    also have "\<dots> = floored_log_power k ws inb j"
      by (simp only: floored_log_power_def r fst_conv snd_conv power2_eq_square mult.assoc)
    finally show ?thesis .
  qed
  ultimately show ?thesis by blast
qed

lemma Calculate_ok_curve:
  assumes "valid_inputs k (enum_value a) windowFunc windowSize" "windowSize \<le> dataLen"
  shows "Calculate k s (enum_value a) windowFunc windowSize rate data dataLen =
           Some (case post_process a (windowSize div 2)
                        (window_scale windowSize (window_coeffs k windowFunc windowSize))
                        (int (window_count windowSize dataLen))
                        (accumulated k a windowSize (window_coeffs k windowFunc windowSize) data 0
                           (windows_left windowSize dataLen 0) (replicate windowSize 0)) of
                   (p', mn, mx) \<Rightarrow>
                     (ReturnTrue mn mx,
                      s\<lparr>mProcessed := p', mRate := rate, mWindowSize := windowSize, mAlg := a\<rparr>))"
  using assms
  by (simp add: Calculate_valid Calculate_ok_def Let_def Algorithm_of_enum_value windows_left_0
        case_prod_beta)

subsection \<open>The stand-in kernels\<close>

lemma for_vector_map:
  "n \<le> length v \<Longrightarrow> for_vector n f v = map (\<lambda>i. f i (v ! i)) [0..<n] @ drop n v"
  by (rule nth_equalityI) (auto simp: length_for_vector nth_for_vector nth_append)

lemma window_scale_sum:
  "window_scale ws win =
     (if (\<Sum>i<ws. win i) > 0 then 4 / ((\<Sum>i<ws. win i) * (\<Sum>i<ws. win i)) else 1)"
proof -
  have "fold (\<lambda>i a. a + win i) [0..<n] a0 = a0 + (\<Sum>i<n. win i)" for n a0
    by (induction n) simp_all
  then show ?thesis by (simp add: window_scale_def Let_def)
qed

lemma stub_window: "window_coeffs stub_kernels windowFunc ws i = (if i < ws then 1 else 0)"
  by (simp add: window_coeffs_def stub_kernels_def for_floats_apply)

lemma stub_scale: "0 < ws \<Longrightarrow> window_scale ws (window_coeffs stub_kernels windowFunc ws) = 4 / (real ws * real ws)"
  by (simp add: window_scale_sum stub_window)

lemma stub_frame:
  "window_frame ws (window_coeffs stub_kernels windowFunc ws) data start i =
     (if i < ws then data (start + i) else 0)"
  by (simp add: window_frame_def for_floats_apply stub_window)

lemma stub_power: "PowerSpectrum stub_kernels n b = b"
  by (simp add: stub_kernels_def)

subsection \<open>The Spectrum branch\<close>

lemma Calculate_Spectrum_bins:
  assumes v: "valid_inputs k (enum_value Spectrum) windowFunc windowSize"
    and d: "windowSize \<le> dataLen"
  shows "\<exists>mn mx s'.
     Calculate k s (enum_value Spectrum) windowFunc windowSize rate data dataLen =
       Some (ReturnTrue mn mx, s') \<and>
     (\<forall>i<windowSize div 2.
        mProcessed s' ! i =
          10 * log 10 (accumulated_curve k Spectrum windowFunc windowSize data dataLen i *
                       (window_scale windowSize (window_coeffs k windowFunc windowSize) /
                        real (window_count windowSize dataLen)))) \<and>
     (mn, mx) = minmax_scan (mProcessed s') 0 (windowSize div 2) (1000000, - 1000000)"
proof -
  let ?half = "windowSize div 2"
  let ?W = "int (window_count windowSize dataLen)"
  let ?wss = "window_scale windowSize (window_coeffs k windowFunc windowSize)"
  let ?acc = "accumulated k Spectrum windowSize (window_coeffs k windowFunc windowSize)
                data 0 (windows_left windowSize dataLen 0) (replicate windowSize 0)"
  let ?pp = "post_Spectrum ?half ?wss ?W ?acc"
  have len: "?half \<le> length ?acc" by (simp add: length_accumulated)
  have pp: "?pp = (for_vector ?half (\<lambda>i x. 10 * log 10 (x * (?wss / real_of_int ?W))) ?acc,
      minmax_scan (for_vector ?half (\<lambda>i x. 10 * log 10 (x * (?wss / real_of_int ?W))) ?acc)
        0 ?half (1000000, - 1000000))"
    by (rule post_Spectrum_eq [OF len])
  have nth: "fst ?pp ! i =
          10 * log 10 (accumulated_curve k Spectrum windowFunc windowSize data dataLen i *
                       (?wss / real (window_count windowSize dataLen)))" if i: "i < ?half" for i
    using accumulated_nth_curve [OF d i, of k Spectrum windowFunc data] len i
    by (simp add: pp nth_for_vector)
  have mm: "snd ?pp = minmax_scan (fst ?pp) 0 ?half (1000000, - 1000000)"
    by (simp add: pp)
  have "Calculate k s (enum_value Spectrum) windowFunc windowSize rate data dataLen =
          Some (ReturnTrue (fst (snd ?pp)) (snd (snd ?pp)),
                s\<lparr>mProcessed := fst ?pp, mRate := rate, mWindowSize := windowSize,
                   mAlg := Spectrum\<rparr>)"
    by (subst Calculate_ok_curve [OF v d]) (simp add: case_prod_beta)
  then show ?thesis using nth mm by simp
qed

subsection \<open>Float arithmetic\<close>

lemmas fl_ops = fadd_def fsub_def fmul_def fdiv_def flt_def fle_def zero_of_def inf_of_def

lemma exact_roundings [simp]:
  "to_single exact_arithmetic = Fin" "to_double exact_arithmetic = Fin"
  "single_sqrt exact_arithmetic"
  by (simp_all add: exact_arithmetic_def)

lemma narrow_exact [simp]: "narrow Fin a = a"
  by (cases a) simp_all

lemma narrow_not_finite: "\<not> is_finite a \<Longrightarrow> narrow rnd a = a"
  by (cases a) simp_all

lemma fdiv_by_zero: "is_zero b \<Longrightarrow> \<not> is_finite (fdiv rnd a b)"
  by (cases a; cases b) (auto simp add: fdiv_def is_zero_def inf_of_def)

lemma fmul_zero: "is_finite a \<Longrightarrow> is_zero b \<Longrightarrow> is_zero (fmul rnd a b)"
  by (cases a; cases b) (simp_all add: fmul_def is_zero_def zero_of_def)

lemma flt_trans: "flt a b \<Longrightarrow> flt b c \<Longrightarrow> flt a c"
  by (cases a; cases b; cases c) (simp_all add: flt_def)

lemma flt_finite: "is_finite a \<Longrightarrow> is_finite b \<Longrightarrow> flt a b = (fnum a < fnum b)"
  by (cases a; cases b) (simp_all add: flt_def)

lemma fneg_finite [simp]: "is_finite a \<Longrightarrow> is_finite (fneg a)"
  by (cases a) simp_all

lemma fneg_num [simp]: "fnum (fneg a) = - fnum a"
  by (cases a) simp_all

text \<open>Without rounding, the operations on finite values are those of the reals.\<close>

lemma fadd_exact_finite: "is_finite a \<Longrightarrow> is_finite b \<Longrightarrow> is_finite (fadd Fin a b)"
  by (cases a; cases b) (simp_all add: fadd_def zero_of_def)

lemma fadd_exact_num: "is_finite a \<Longrightarrow> is_finite b \<Longrightarrow> fnum (fadd Fin a b) = fnum a + fnum b"
  by (cases a; cases b) (simp_all add: fadd_def zero_of_def)

lemma fsub_exact_finite: "is_finite a \<Longrightarrow> is_finite b \<Longrightarrow> is_finite (fsub Fin a b)"
  by (simp add: fsub_def fadd_exact_finite)

lemma fsub_exact_num: "is_finite a \<Longrightarrow> is_finite b \<Longrightarrow> fnum (fsub Fin a b) = fnum a - fnum b"
  by (simp add: fsub_def fadd_exact_num)

lemma fmul_exact_finite: "is_finite a \<Longrightarrow> is_finite b \<Longrightarrow> is_finite (fmul Fin a b)"
  by (cases a; cases b) (simp_all add: fmul_def zero_of_def)

lemma fmul_exact_num: "is_finite a \<Longrightarrow> is_finite b \<Longrightarrow> fnum (fmul Fin a b) = fnum a * fnum b"
  by (cases a; cases b) (simp_all add: fmul_def zero_of_def)

lemma fdiv_exact_finite:
  "is_finite a \<Longrightarrow> is_finite b \<Longrightarrow> fnum b \<noteq> 0 \<Longrightarrow> is_finite (fdiv Fin a b)"
  by (cases a; cases b) (simp_all add: fdiv_def zero_of_def)

lemma fdiv_exact_num:
  "is_finite a \<Longrightarrow> is_finite b \<Longrightarrow> fnum b \<noteq> 0 \<Longrightarrow> fnum (fdiv Fin a b) = fnum a / fnum b"
  by (cases a; cases b) (simp_all add: fdiv_def zero_of_def)

lemma fsqrt_exact_finite: "is_finite a \<Longrightarrow> 0 \<le> fnum a \<Longrightarrow> is_finite (fsqrt Fin a)"
  by (cases a) simp_all

lemma fsqrt_exact_num: "is_finite a \<Longrightarrow> 0 \<le> fnum a \<Longrightarrow> fnum (fsqrt Fin a) = sqrt (fnum a)"
  by (cases a) simp_all

lemmas exact_ops =
  fadd_exact_finite fadd_exact_num fsub_exact_finite fsub_exact_num fmul_exact_finite
  fmul_exact_num fdiv_exact_finite fdiv_exact_num fsqrt_exact_finite fsqrt_exact_num

subsection \<open>The cubic helpers\<close>

lemma CubicMaximize_unfold:
  "CubicMaximize r y0 y1 y2 y3 m =
     (if flt (cubic_discriminant r y0 y1 y2 y3) (Fin 0) then (Fin (- 1), m)
      else (chosen_root r y0 y1 y2 y3,
            cubic_at r (cubic_a r y0 y1 y2 y3) (cubic_b r y0 y1 y2 y3) (cubic_c r y0 y1 y2 y3) y0
              (chosen_root r y0 y1 y2 y3)))"
  by (simp add: CubicMaximize_def Let_def cubic_discriminant_def cubic_da_def cubic_db_def
        chosen_root_def curvature_test_def upper_root_def lower_root_def root_divisor_def)

lemma root_store_not_finite: "\<not> is_finite x \<Longrightarrow> \<not> is_finite (root_store r x)"
  by (simp add: root_store_def narrow_not_finite)

lemma chosen_root_not_finite:
  assumes "is_zero (root_divisor r y0 y1 y2 y3)"
  shows "\<not> is_finite (chosen_root r y0 y1 y2 y3)"
  using assms
  by (simp add: chosen_root_def upper_root_def lower_root_def root_store_not_finite fdiv_by_zero)

lemma zero_samples:
  "cubic_a r (Fin 0) (Fin 0) (Fin 0) (Fin 0) = Fin 0"
  "cubic_b r (Fin 0) (Fin 0) (Fin 0) (Fin 0) = Fin 0"
  "cubic_c r (Fin 0) (Fin 0) (Fin 0) (Fin 0) = Fin 0"
  by (simp_all add: cubic_a_def cubic_b_def cubic_c_def fl_ops)

lemma zero_samples_derivative:
  "cubic_da r (Fin 0) (Fin 0) (Fin 0) (Fin 0) = Fin 0"
  "cubic_db r (Fin 0) (Fin 0) (Fin 0) (Fin 0) = Fin 0"
  by (simp_all add: cubic_da_def cubic_db_def zero_samples fl_ops)

lemma zero_samples_discriminant:
  "cubic_discriminant r (Fin 0) (Fin 0) (Fin 0) (Fin 0) = Fin 0"
  by (simp add: cubic_discriminant_def zero_samples zero_samples_derivative fl_ops)

lemma zero_samples_divisor: "root_divisor r (Fin 0) (Fin 0) (Fin 0) (Fin 0) = Fin 0"
  by (simp add: root_divisor_def zero_samples_derivative fl_ops)

lemma zero_samples_roots:
  "upper_root r (Fin 0) (Fin 0) (Fin 0) (Fin 0) = NaN"
  "lower_root r (Fin 0) (Fin 0) (Fin 0) (Fin 0) = NaN"
  by (simp_all add: upper_root_def lower_root_def zero_samples_divisor zero_samples_derivative
        zero_samples_discriminant root_store_def fl_ops)

lemma cubic_at_NaN: "cubic_at r a b c d NaN = NaN"
  by (simp add: cubic_at_def fl_ops)

lemma CubicMaximize_zero_samples:
  "CubicMaximize r (Fin 0) (Fin 0) (Fin 0) (Fin 0) m = (NaN, NaN)"
  by (simp add: CubicMaximize_unfold zero_samples_discriminant chosen_root_def zero_samples_roots
        cubic_at_NaN flt_def)

text \<open>Without rounding, on finite samples.\<close>

lemma cubic_exact:
  "is_finite (cubic_a exact_arithmetic (Fin u0) (Fin u1) (Fin u2) (Fin u3))"
  "fnum (cubic_a exact_arithmetic (Fin u0) (Fin u1) (Fin u2) (Fin u3)) = fit_a u0 u1 u2 u3"
  "is_finite (cubic_b exact_arithmetic (Fin u0) (Fin u1) (Fin u2) (Fin u3))"
  "fnum (cubic_b exact_arithmetic (Fin u0) (Fin u1) (Fin u2) (Fin u3)) = fit_b u0 u1 u2 u3"
  "is_finite (cubic_c exact_arithmetic (Fin u0) (Fin u1) (Fin u2) (Fin u3))"
  "fnum (cubic_c exact_arithmetic (Fin u0) (Fin u1) (Fin u2) (Fin u3)) = fit_c u0 u1 u2 u3"
  by (simp_all add: cubic_a_def cubic_b_def cubic_c_def fit_a_def fit_b_def fit_c_def exact_ops)

lemma cubic_derivative_exact:
  "is_finite (cubic_da exact_arithmetic (Fin u0) (Fin u1) (Fin u2) (Fin u3))"
  "fnum (cubic_da exact_arithmetic (Fin u0) (Fin u1) (Fin u2) (Fin u3)) = 3 * fit_a u0 u1 u2 u3"
  "is_finite (cubic_db exact_arithmetic (Fin u0) (Fin u1) (Fin u2) (Fin u3))"
  "fnum (cubic_db exact_arithmetic (Fin u0) (Fin u1) (Fin u2) (Fin u3)) = 2 * fit_b u0 u1 u2 u3"
  "is_finite (root_divisor exact_arithmetic (Fin u0) (Fin u1) (Fin u2) (Fin u3))"
  "fnum (root_divisor exact_arithmetic (Fin u0) (Fin u1) (Fin u2) (Fin u3)) =
     2 * (3 * fit_a u0 u1 u2 u3)"
  by (simp_all add: cubic_da_def cubic_db_def root_divisor_def cubic_exact exact_ops)

lemma cubic_discriminant_exact:
  "is_finite (cubic_discriminant exact_arithmetic (Fin u0) (Fin u1) (Fin u2) (Fin u3))"
  "fnum (cubic_discriminant exact_arithmetic (Fin u0) (Fin u1) (Fin u2) (Fin u3)) =
     fit_discriminant u0 u1 u2 u3"
  by (simp_all add: cubic_discriminant_def fit_discriminant_def cubic_exact cubic_derivative_exact
        exact_ops)

lemma cubic_at_exact:
  assumes "is_finite a" "is_finite b" "is_finite c" "is_finite d" "is_finite x"
  shows "is_finite (cubic_at exact_arithmetic a b c d x)"
    and "fnum (cubic_at exact_arithmetic a b c d x) =
           fnum a * fnum x ^ 3 + fnum b * fnum x ^ 2 + fnum c * fnum x + fnum d"
  using assms
  by (simp_all add: cubic_at_def exact_ops power2_eq_square power3_eq_cube mult.assoc)

lemma quadratic_root_minus:
  fixes A B C :: real
  assumes "A \<noteq> 0" "0 \<le> B * B - 4 * A * C"
  defines "x \<equiv> (- B - sqrt (B * B - 4 * A * C)) / (2 * A)"
  shows "A * x ^ 2 + B * x + C = 0" "2 * A * x + B = - sqrt (B * B - 4 * A * C)"
proof -
  let ?s = "sqrt (B * B - 4 * A * C)"
  have s2: "?s * ?s = B * B - 4 * A * C" using assms(2) by simp
  have x: "2 * A * x = - B - ?s" using assms(1) by (simp add: x_def)
  show 2: "2 * A * x + B = - ?s" using x by simp
  have "4 * A * (A * x ^ 2 + B * x + C) = (2 * A * x) * (2 * A * x) + 2 * B * (2 * A * x) + 4 * A * C"
    by (simp add: power2_eq_square algebra_simps)
  also have "\<dots> = (- B - ?s) * (- B - ?s) + 2 * B * (- B - ?s) + 4 * A * C"
    by (simp only: x)
  also have "\<dots> = ?s * ?s - B * B + 4 * A * C"
    by (simp add: algebra_simps)
  also have "\<dots> = 0" by (simp only: s2)
  finally show "A * x ^ 2 + B * x + C = 0" using assms(1) by simp
qed

lemma CubicMaximize_exact_sentinel:
  "fit_discriminant u0 u1 u2 u3 < 0 \<Longrightarrow>
   CubicMaximize exact_arithmetic (Fin u0) (Fin u1) (Fin u2) (Fin u3) m = (Fin (- 1), m)"
  by (simp add: CubicMaximize_unfold flt_finite cubic_discriminant_exact)

lemma CubicMaximize_exact_root:
  assumes a: "fit_a u0 u1 u2 u3 \<noteq> 0" and d: "0 \<le> fit_discriminant u0 u1 u2 u3"
  shows "\<exists>x v. CubicMaximize exact_arithmetic (Fin u0) (Fin u1) (Fin u2) (Fin u3) m = (x, v) \<and>
           is_finite x \<and> is_finite v \<and>
           fit_slope u0 u1 u2 u3 (fnum x) = 0 \<and>
           fit_curvature u0 u1 u2 u3 (fnum x) = - sqrt (fit_discriminant u0 u1 u2 u3) \<and>
           fnum v = fit_value u0 u1 u2 u3 (fnum x)"
proof -
  let ?A = "3 * fit_a u0 u1 u2 u3" and ?B = "2 * fit_b u0 u1 u2 u3" and ?C = "fit_c u0 u1 u2 u3"
  let ?D = "?B * ?B - 4 * ?A * ?C"
  let ?disc = "cubic_discriminant exact_arithmetic (Fin u0) (Fin u1) (Fin u2) (Fin u3)"
  let ?div = "root_divisor exact_arithmetic (Fin u0) (Fin u1) (Fin u2) (Fin u3)"
  let ?db = "cubic_db exact_arithmetic (Fin u0) (Fin u1) (Fin u2) (Fin u3)"
  let ?x1 = "upper_root exact_arithmetic (Fin u0) (Fin u1) (Fin u2) (Fin u3)"
  let ?x2 = "lower_root exact_arithmetic (Fin u0) (Fin u1) (Fin u2) (Fin u3)"
  have D: "fit_discriminant u0 u1 u2 u3 = ?D" by (simp add: fit_discriminant_def)
  have A: "?A \<noteq> 0" using a by simp
  have D0: "0 \<le> ?D" using d D by simp
  have dn: "0 \<le> fnum ?disc" using d by (simp add: cubic_discriminant_exact)
  have vn: "fnum ?div \<noteq> 0" using a by (simp add: cubic_derivative_exact)
  have rr: "root_rounding exact_arithmetic = Fin" by (simp add: root_rounding_def)
  have rs: "root_store exact_arithmetic x = x" for x by (simp add: root_store_def)
  have sq: "is_finite (fsqrt Fin ?disc)" "fnum (fsqrt Fin ?disc) = sqrt ?D"
    using dn by (simp_all add: exact_ops cubic_discriminant_exact D)
  have x1: "is_finite ?x1" "fnum ?x1 = (- ?B + sqrt ?D) / (2 * ?A)"
    using vn sq by (simp_all add: upper_root_def rr rs exact_ops cubic_derivative_exact)
  have x2: "is_finite ?x2" "fnum ?x2 = (- ?B - sqrt ?D) / (2 * ?A)"
    using vn sq by (simp_all add: lower_root_def rr rs exact_ops cubic_derivative_exact)
  have "2 * ?A * ((- ?B + sqrt ?D) / (2 * ?A)) + ?B = sqrt ?D" using A by simp
  then have c1: "2 * ?A * fnum ?x1 + ?B = sqrt ?D" by (simp only: x1(2))
  have "\<not> 2 * ?A * fnum ?x1 + ?B < 0" by (simp only: c1) (use D0 in simp)
  then have nt: "\<not> curvature_test exact_arithmetic (Fin u0) (Fin u1) (Fin u2) (Fin u3) ?x1"
    using x1(1) by (simp add: curvature_test_def flt_finite exact_ops cubic_derivative_exact)
  have ch: "chosen_root exact_arithmetic (Fin u0) (Fin u1) (Fin u2) (Fin u3) = ?x2"
    using nt by (simp add: chosen_root_def)
  have nd: "\<not> flt ?disc (Fin 0)" using dn by (simp add: flt_finite cubic_discriminant_exact)
  have cm: "CubicMaximize exact_arithmetic (Fin u0) (Fin u1) (Fin u2) (Fin u3) m =
        (?x2, cubic_at exact_arithmetic (cubic_a exact_arithmetic (Fin u0) (Fin u1) (Fin u2) (Fin u3))
                (cubic_b exact_arithmetic (Fin u0) (Fin u1) (Fin u2) (Fin u3))
                (cubic_c exact_arithmetic (Fin u0) (Fin u1) (Fin u2) (Fin u3)) (Fin u0) ?x2)"
    using nd by (simp add: CubicMaximize_unfold ch)
  from quadratic_root_minus [OF A D0]
  have r1: "?A * fnum ?x2 ^ 2 + ?B * fnum ?x2 + ?C = 0"
    and r2: "2 * ?A * fnum ?x2 + ?B = - sqrt ?D" by (simp_all only: x2(2))
  have s: "fit_slope u0 u1 u2 u3 (fnum ?x2) = 0" using r1 by (simp add: fit_slope_def)
  have k: "fit_curvature u0 u1 u2 u3 (fnum ?x2) = - sqrt (fit_discriminant u0 u1 u2 u3)"
    using r2 by (simp add: fit_curvature_def D)
  have v: "is_finite (cubic_at exact_arithmetic (cubic_a exact_arithmetic (Fin u0) (Fin u1) (Fin u2) (Fin u3))
                (cubic_b exact_arithmetic (Fin u0) (Fin u1) (Fin u2) (Fin u3))
                (cubic_c exact_arithmetic (Fin u0) (Fin u1) (Fin u2) (Fin u3)) (Fin u0) ?x2)"
    "fnum (cubic_at exact_arithmetic (cubic_a exact_arithmetic (Fin u0) (Fin u1) (Fin u2) (Fin u3))
                (cubic_b exact_arithmetic (Fin u0) (Fin u1) (Fin u2) (Fin u3))
                (cubic_c exact_arithmetic (Fin u0) (Fin u1) (Fin u2) (Fin u3)) (Fin u0) ?x2) =
     fit_value u0 u1 u2 u3 (fnum ?x2)"
    using x2(1) by (simp_all add: cubic_at_exact cubic_exact fit_value_def)
  from cm x2(1) v s k show ?thesis by (intro exI conjI)
qed

subsection \<open>FindPeak\<close>

lemma flt_irrefl: "\<not> flt a a"
  by (cases a) (simp_all add: flt_def)

lemma flt_asym: "flt a b \<Longrightarrow> \<not> flt b a"
  by (cases a; cases b) (simp_all add: flt_def)

lemma flagged_step:
  assumes "int bin < GetProcessedSize s - 1"
  shows "flagged s bin up =
           (if \<not> rises (mProcessed s) bin \<and> up then [bin] else []) @
           flagged s (Suc bin) (rises (mProcessed s) bin)"
proof (cases "int (Suc bin) < GetProcessedSize s - 1")
  case True
  then have "[Suc bin..<nat (GetProcessedSize s - 1)] =
             Suc bin # [Suc (Suc bin)..<nat (GetProcessedSize s - 1)]"
    by (intro upt_conv_Cons) linarith
  then show ?thesis using assms True by (simp add: flagged_def)
next
  case False
  then have "[Suc bin..<nat (GetProcessedSize s - 1)] = []" by simp
  then show ?thesis using assms False by (simp add: flagged_def)
qed

lemma flagged_end: "\<not> int bin < GetProcessedSize s - 1 \<Longrightarrow> flagged s bin up = []"
  by (simp add: flagged_def)

lemma peak_bins_flagged:
  assumes "rises (mProcessed s) 2 = rises (mProcessed s) 1"
  shows "peak_bins s = flagged s 3 (rises (mProcessed s) 1)"
proof (cases "int 3 < GetProcessedSize s - 1")
  case True
  then have u: "[3..<nat (GetProcessedSize s - 1)] = 3 # [Suc 3..<nat (GetProcessedSize s - 1)]"
    by (intro upt_conv_Cons) linarith
  have "3 - 1 = (2::nat)" by simp
  then show ?thesis using True assms by (simp add: peak_bins_def flagged_def u)
next
  case False
  then have "[3..<nat (GetProcessedSize s - 1)] = []" by simp
  then show ?thesis using False by (simp add: peak_bins_def flagged_def)
qed

lemma peak_scan_step:
  assumes lt: "int bin < GetProcessedSize s - 1" and b2: "2 \<le> bin"
  shows "peak_scan r s xPos bin up best =
           (if \<not> rises (mProcessed s) bin \<and> up
            then (if flt (distance r xPos (candidate r s bin)) (fst (snd best))
                  then (if flt xPos (fst (candidate r s bin))
                        then (fst (candidate r s bin), distance r xPos (candidate r s bin),
                              snd (candidate r s bin))
                        else peak_scan r s xPos (bin + 1) (rises (mProcessed s) bin)
                               (fst (candidate r s bin), distance r xPos (candidate r s bin),
                                snd (candidate r s bin)))
                  else peak_scan r s xPos (bin + 1) (rises (mProcessed s) bin) best)
            else peak_scan r s xPos (bin + 1) (rises (mProcessed s) bin) best)"
proof -
  obtain bp bd bv where best: "best = (bp, bd, bv)" by (cases best)
  obtain m v where
    cm: "CubicMaximize r (Fin (mProcessed s ! (bin - 2))) (Fin (mProcessed s ! (bin - 1)))
           (Fin (mProcessed s ! bin)) (Fin (mProcessed s ! (bin + 1))) (Fin 0) = (m, v)"
    by (cases "CubicMaximize r (Fin (mProcessed s ! (bin - 2))) (Fin (mProcessed s ! (bin - 1)))
           (Fin (mProcessed s ! bin)) (Fin (mProcessed s ! (bin + 1))) (Fin 0)")
  have idx: "bin - 2 + 1 = bin - 1" "bin - 2 + 2 = bin" "bin - 2 + 3 = bin + 1"
    using b2 by simp_all
  have cand: "candidate r s bin =
        (position_of r s (fadd (to_single r) (single_of_int r (int (bin - 2))) m), v)"
    unfolding candidate_def cm by simp
  have pos: "position_of r s y =
        (if mAlg s = Spectrum
         then narrow (to_single r)
                (fdiv (to_double r) (fmul (to_double r) y (Fin (mRate s)))
                   (double_of_int r (int (mWindowSize s))))
         else narrow (to_single r) (fdiv (to_double r) y (Fin (mRate s))))" for y
    by (simp add: position_of_def)
  have now: "(mProcessed s ! (bin - 1) < mProcessed s ! bin) = rises (mProcessed s) bin"
    by (simp add: rises_def)
  show ?thesis
    unfolding best
    apply (subst peak_scan.simps)
    unfolding Let_def idx cm now cand distance_def fst_conv snd_conv pos [symmetric] prod.case
    using lt by simp
qed

lemma peak_scan_select:
  assumes b2: "2 \<le> bin"
  shows "peak_scan r s xPos bin up best =
           select_best r xPos (map (candidate r s) (flagged s bin up)) best"
  using b2
proof (induction "nat (GetProcessedSize s - 1 - int bin)" arbitrary: bin up best)
  case 0
  then have nl: "\<not> int bin < GetProcessedSize s - 1" by simp
  obtain bp bd bv where best: "best = (bp, bd, bv)" by (cases best)
  show ?case unfolding best using nl by (subst peak_scan.simps) (simp add: flagged_end)
next
  case (Suc n)
  then have lt: "int bin < GetProcessedSize s - 1" by linarith
  let ?now = "rises (mProcessed s) bin"
  have fl: "flagged s bin up = (if \<not> ?now \<and> up then [bin] else []) @ flagged s (Suc bin) ?now"
    by (rule flagged_step [OF lt])
  have n: "n = nat (GetProcessedSize s - 1 - int (Suc bin))" using Suc.hyps(2) by linarith
  have b2': "2 \<le> Suc bin" using Suc.prems(1) by simp
  have IH: "peak_scan r s xPos (Suc bin) u best' =
           select_best r xPos (map (candidate r s) (flagged s (Suc bin) u)) best'"
    if "u = ?now" for best' u
    unfolding that by (rule Suc.hyps(1) [OF n b2'])
  show ?case
    by (subst peak_scan_step [OF lt Suc.prems(1)]) (simp add: IH fl)
qed

lemma select_best_visited:
  "select_best r x cs (bp, bd, bv) = (bp', bd', bv') \<Longrightarrow>
     ((bp', bd', bv') = (bp, bd, bv) \<and>
      (\<forall>c\<in>set (visited r x bd cs). \<not> flt (distance r x c) bd)) \<or>
     ((bp', bv') \<in> set (visited r x bd cs) \<and> bd' = distance r x (bp', bv') \<and> flt bd' bd \<and>
      (\<forall>c\<in>set (visited r x bd cs). \<not> flt (distance r x c) bd'))"
proof (induction cs arbitrary: bp bd bv)
  case Nil
  then show ?case by simp
next
  case (Cons c cs)
  let ?d = "distance r x c"
  show ?case
  proof (cases "flt ?d bd")
    case near: True
    show ?thesis
    proof (cases "flt x (fst c)")
      case True
      with near Cons.prems have e: "(bp', bd', bv') = (fst c, ?d, snd c)" by simp
      then have c: "(bp', bv') = c" by (cases c) simp
      have v: "visited r x bd (c # cs) = [c]" using near True by simp
      have "(bp', bv') \<in> set (visited r x bd (c # cs)) \<and> bd' = distance r x (bp', bv') \<and>
            flt bd' bd \<and> (\<forall>c'\<in>set (visited r x bd (c # cs)). \<not> flt (distance r x c') bd')"
        unfolding v c using e near by (simp add: flt_irrefl)
      then show ?thesis by (rule disjI2)
    next
      case False
      with near Cons.prems have s: "select_best r x cs (fst c, ?d, snd c) = (bp', bd', bv')"
        by simp
      have v: "visited r x bd (c # cs) = c # visited r x ?d cs" using near False by simp
      from Cons.IH [OF s] show ?thesis
      proof
        assume a: "(bp', bd', bv') = (fst c, ?d, snd c) \<and>
                   (\<forall>c'\<in>set (visited r x ?d cs). \<not> flt (distance r x c') ?d)"
        then have c: "(bp', bv') = c" by (cases c) simp
        from a have d: "bd' = ?d" by simp
        have "(bp', bv') \<in> set (visited r x bd (c # cs)) \<and> bd' = distance r x (bp', bv') \<and>
              flt bd' bd \<and> (\<forall>c'\<in>set (visited r x bd (c # cs)). \<not> flt (distance r x c') bd')"
          unfolding v c d using a near by (simp add: flt_irrefl)
        then show ?thesis by (rule disjI2)
      next
        assume a: "(bp', bv') \<in> set (visited r x ?d cs) \<and> bd' = distance r x (bp', bv') \<and>
                   flt bd' ?d \<and> (\<forall>c'\<in>set (visited r x ?d cs). \<not> flt (distance r x c') bd')"
        then have lt: "flt bd' bd" using near flt_trans by blast
        have nc: "\<not> flt ?d bd'" using a flt_asym by blast
        have "(bp', bv') \<in> set (visited r x bd (c # cs)) \<and> bd' = distance r x (bp', bv') \<and>
              flt bd' bd \<and> (\<forall>c'\<in>set (visited r x bd (c # cs)). \<not> flt (distance r x c') bd')"
          unfolding v using a lt nc by auto
        then show ?thesis by (rule disjI2)
      qed
    qed
  next
    case far: False
    with Cons.prems have s: "select_best r x cs (bp, bd, bv) = (bp', bd', bv')" by simp
    have v: "visited r x bd (c # cs) = c # visited r x bd cs" using far by simp
    from Cons.IH [OF s] show ?thesis
    proof
      assume a: "(bp', bd', bv') = (bp, bd, bv) \<and>
                 (\<forall>c'\<in>set (visited r x bd cs). \<not> flt (distance r x c') bd)"
      have "(bp', bd', bv') = (bp, bd, bv) \<and>
            (\<forall>c'\<in>set (visited r x bd (c # cs)). \<not> flt (distance r x c') bd)"
        unfolding v using a far by auto
      then show ?thesis by (rule disjI1)
    next
      assume a: "(bp', bv') \<in> set (visited r x bd cs) \<and> bd' = distance r x (bp', bv') \<and>
                 flt bd' bd \<and> (\<forall>c'\<in>set (visited r x bd cs). \<not> flt (distance r x c') bd')"
      have nc: "\<not> flt ?d bd'" using a far flt_trans by blast
      have "(bp', bv') \<in> set (visited r x bd (c # cs)) \<and> bd' = distance r x (bp', bv') \<and>
            flt bd' bd \<and> (\<forall>c'\<in>set (visited r x bd (c # cs)). \<not> flt (distance r x c') bd')"
        unfolding v using a nc by auto
      then show ?thesis by (rule disjI2)
    qed
  qed
qed

lemma FindPeak_select:
  assumes "rises (mProcessed s) 2 = rises (mProcessed s) 1"
  shows "FindPeak r s xPos =
           (case select_best r xPos (map (candidate r s) (peak_bins s)) (Fin 0, Fin 1000000, Fin 0) of
              (bestpeak, bestdist, bestValue) \<Rightarrow> (bestpeak, bestValue))"
proof (cases "GetProcessedSize s > 1")
  case True
  have up: "(mProcessed s ! 1 > mProcessed s ! 0) = rises (mProcessed s) 1"
    by (simp add: rises_def)
  have "2 \<le> (3::nat)" by simp
  from peak_scan_select [OF this, of r s xPos "rises (mProcessed s) 1" "(Fin 0, Fin 1000000, Fin 0)"]
  show ?thesis
    unfolding FindPeak_def Let_def up using True
    by (simp add: peak_bins_flagged [OF assms])
next
  case False
  then have "[3..<nat (GetProcessedSize s - 1)] = []" by simp
  then have "peak_bins s = []" unfolding peak_bins_def by (simp only: filter.simps)
  then show ?thesis using False by (simp add: FindPeak_def)
qed

text \<open>The candidates of the two curves with peaks.\<close>

lemma CubicMaximize_0113:
  "CubicMaximize exact_arithmetic (Fin 0) (Fin 1) (Fin 1) (Fin 3) (Fin 0) = (Fin 1, Fin 1)"
  by (simp add: CubicMaximize_def cubic_a_def cubic_b_def cubic_c_def Let_def fl_ops
        root_rounding_def root_store_def cubic_at_def)

lemma CubicMaximize_0210:
  "CubicMaximize exact_arithmetic (Fin 0) (Fin 2) (Fin 1) (Fin 0) (Fin 0) = (Fin 1, Fin 2)"
  by (simp add: CubicMaximize_def cubic_a_def cubic_b_def cubic_c_def Let_def fl_ops
        root_rounding_def root_store_def cubic_at_def)

lemma CubicMaximize_0110:
  "CubicMaximize exact_arithmetic (Fin 0) (Fin 1) (Fin 1) (Fin 0) (Fin 0) = (NaN, NaN)"
  by (simp add: CubicMaximize_def cubic_a_def cubic_b_def cubic_c_def Let_def fl_ops
        root_rounding_def root_store_def cubic_at_def)

lemma CubicMaximize_0323:
  "CubicMaximize exact_arithmetic (Fin 0) (Fin 3) (Fin 2) (Fin 3) (Fin 0) = (Fin 1, Fin 3)"
  by (simp add: CubicMaximize_def cubic_a_def cubic_b_def cubic_c_def Let_def fl_ops
        root_rounding_def root_store_def cubic_at_def)

lemma peak_bins_peak_state: "peak_bins peak_state = [5]"
  by (simp add: peak_bins_def peak_state_def GetProcessedSize_def rises_def upt_rec)

lemma peak_bins_peaks_state: "peak_bins peaks_state = [4, 7, 10, 12]"
  by (simp add: peak_bins_def peaks_state_def GetProcessedSize_def rises_def upt_rec)

lemma candidate_peak_state: "candidate exact_arithmetic peak_state 5 = (Fin 4, Fin 1)"
  by (simp add: candidate_def peak_state_def CubicMaximize_0113 position_of_def single_of_int_def
        fl_ops)

lemma candidates_peaks_state:
  "candidate exact_arithmetic peaks_state 4 = (Fin 3, Fin 2)"
  "candidate exact_arithmetic peaks_state 7 = (NaN, NaN)"
  "candidate exact_arithmetic peaks_state 10 = (Fin 9, Fin 3)"
  by (simp_all add: candidate_def peaks_state_def CubicMaximize_0210 CubicMaximize_0110
        CubicMaximize_0323 position_of_def single_of_int_def fl_ops)

subsection \<open>GetProcessedValue\<close>

lemma to_int_of_int [simp]: "to_int (real_of_int i) = i"
  by (simp add: to_int_def)














section \<open>The claims\<close>

subsection \<open>Validation and the stored state\<close>

text \<open>
  C1. \<open>Calculate\<close> returns, and it returns false exactly when validation fails: the
  window size is below 32 or above 65536, or \<open>alg\<close> is not the value of one of the five
  enumerators, or \<open>windowFunc\<close> is not an index into the window-function catalog, or
  \<open>dataLen < windowSize\<close>. After every failing call the vector is empty
  (\<open>GetProcessedSize\<close> is 0) and the cached rate and window size are 0.
\<close>

theorem Calculate_fails_iff:
  "\<exists>r s'. Calculate k s alg windowFunc windowSize rate data dataLen = Some (r, s') \<and>
     (r = ReturnFalse \<longleftrightarrow>
        windowSize < 32 \<or> windowSize > 65536 \<or> (\<nexists>a. enum_value a = alg) \<or>
        windowFunc < 0 \<or> NumWindowFuncs k \<le> windowFunc \<or> dataLen < windowSize) \<and>
     (r = ReturnFalse \<longrightarrow>
        mProcessed s' = [] \<and> GetProcessedSize s' = 0 \<and> mRate s' = 0 \<and> mWindowSize s' = 0)"
proof (cases "valid_inputs k alg windowFunc windowSize \<and> windowSize \<le> dataLen")
  case True
  then show ?thesis
    by (simp add: Calculate_valid Calculate_ok_def Let_def valid_inputs_def enum_value_range)
next
  case False
  then have "\<not> valid_inputs k alg windowFunc windowSize \<or> dataLen < windowSize" by auto
  from Calculate_invalid [OF this] False show ?thesis
    by (auto simp: valid_inputs_def enum_value_range GetProcessedSize_def)
qed

theorem Calculate_fails_iff_witness:
  "\<exists>r s'. Calculate stub_kernels SpectrumAnalyst_new 0 0 16 44100 (\<lambda>_. 0) 100 = Some (r, s') \<and>
     r = ReturnFalse \<and> (16::nat) < 32 \<and>
     mProcessed s' = [] \<and> GetProcessedSize s' = 0 \<and> mRate s' = 0 \<and> mWindowSize s' = 0"
  using Calculate_fails_iff [of stub_kernels SpectrumAnalyst_new 0 0 16 44100 "\<lambda>_. 0" 100]
  by auto

text \<open>
  C5. \<open>GetProcessedSize\<close> is 0 on a new engine and after every call of \<open>Calculate\<close>
  that returns false, whatever the state before, and it is \<open>windowSize / 2\<close> after every
  call that returns true.
\<close>

theorem GetProcessedSize_after_Calculate:
  "GetProcessedSize SpectrumAnalyst_new = 0 \<and>
   (\<exists>r s'. Calculate k s alg windowFunc windowSize rate data dataLen = Some (r, s') \<and>
      GetProcessedSize s' = (if r = ReturnFalse then 0 else int (windowSize div 2)))"
proof (cases "valid_inputs k alg windowFunc windowSize \<and> windowSize \<le> dataLen")
  case True
  then have "Calculate k s alg windowFunc windowSize rate data dataLen =
           Some (Calculate_ok k s alg windowFunc windowSize rate data dataLen)"
    by (simp add: Calculate_valid)
  moreover have "fst (Calculate_ok k s alg windowFunc windowSize rate data dataLen) \<noteq> ReturnFalse"
    by (simp add: Calculate_ok_def Let_def)
  ultimately show ?thesis
    using GetProcessedSize_ok [of k s alg windowFunc windowSize rate data dataLen]
    by (cases "Calculate_ok k s alg windowFunc windowSize rate data dataLen")
       (simp add: GetProcessedSize_def SpectrumAnalyst_new_def)
next
  case False
  then have "\<not> valid_inputs k alg windowFunc windowSize \<or> dataLen < windowSize" by auto
  from Calculate_invalid [OF this] show ?thesis
    by (simp add: GetProcessedSize_def SpectrumAnalyst_new_def)
qed

theorem GetProcessedSize_after_Calculate_witness:
  "GetProcessedSize SpectrumAnalyst_new = 0 \<and>
   (\<exists>r s'. Calculate stub_kernels SpectrumAnalyst_new 0 0 32 44100 (\<lambda>_. 0) 32 = Some (r, s') \<and>
      r \<noteq> ReturnFalse \<and> GetProcessedSize s' = 16)"
  using GetProcessedSize_after_Calculate [of stub_kernels SpectrumAnalyst_new 0 0 32 44100 "\<lambda>_. 0" 32]
    Calculate_valid [of stub_kernels 0 0 32 32 SpectrumAnalyst_new 44100 "\<lambda>_. 0"]
  by (auto simp: valid_inputs_def NumAlgorithms_def stub_kernels_def Calculate_ok_def Let_def)

text \<open>
  C8. For inputs that pass the validation of the parameters, the windowing loop returns,
  and it counts at least one window when \<open>dataLen \<ge> windowSize\<close>, so the divisor
  \<open>windows\<close> of the post-processing is not zero. The count is zero exactly when
  \<open>dataLen < windowSize\<close>, and that case never reaches the loop: \<open>Calculate\<close> has
  returned false before.
\<close>

theorem window_count_positive:
  assumes "valid_inputs k alg windowFunc windowSize"
  shows "\<exists>windows p.
           window_loop k (Algorithm_of alg) windowSize (window_coeffs k windowFunc windowSize)
             data dataLen 0 0 (replicate windowSize 0) = Some (windows, p) \<and>
           (windowSize \<le> dataLen \<longrightarrow> 1 \<le> windows \<and> real_of_int windows \<noteq> 0) \<and>
           (windows = 0 \<longleftrightarrow> dataLen < windowSize) \<and>
           (dataLen < windowSize \<longrightarrow>
              (\<exists>s'. Calculate k s alg windowFunc windowSize rate data dataLen =
                 Some (ReturnFalse, s')))"
proof -
  have h: "0 < windowSize div 2" using assms by (simp add: valid_inputs_def)
  show ?thesis
    by (auto simp: window_loop_returns [OF h] windows_left_def Calculate_invalid)
qed

theorem window_count_positive_witness:
  "valid_inputs stub_kernels 0 0 32 \<and> (32::nat) \<le> 48 \<and>
   (\<exists>windows p.
      window_loop stub_kernels (Algorithm_of 0) 32 (window_coeffs stub_kernels 0 32)
        (\<lambda>_. 0) 48 0 0 (replicate 32 0) = Some (windows, p) \<and> 1 \<le> windows)"
proof -
  have v: "valid_inputs stub_kernels 0 0 32"
    by (simp add: valid_inputs_def NumAlgorithms_def stub_kernels_def)
  from window_count_positive [OF v, of "\<lambda>_. 0" 48 SpectrumAnalyst_new 44100] v
  show ?thesis by auto
qed

subsection \<open>Post-processing of the curve\<close>

text \<open>
  C2 fails on the code in its last part. With one window of 32 samples, a rectangular
  window and a power spectrum of 256 in bin 0 and 2560 in the other bins, the curve is
  0 dB in bin 0 and 10 dB elsewhere. Bin 0 raises \<open>mYMax\<close> from its start value, so the
  \<open>else if\<close> never compares it with \<open>mYMin\<close>: the reported minimum is 10, above the
  value 0 of bin 0.
\<close>

theorem Calculate_Spectrum_min_example:
  "Calculate stub_kernels SpectrumAnalyst_new (enum_value Spectrum) 0 32 44100
     (\<lambda>i. if i = 0 then 256 else 2560) 32 =
   Some (ReturnTrue 10 10,
         \<lparr>mAlg = Spectrum, mRate = 44100, mWindowSize = 32,
          mProcessed = 0 # replicate 15 10 @ replicate 16 0\<rparr>)"
proof -
  let ?data = "\<lambda>i::nat. if i = 0 then 256 else 2560 :: real"
  let ?acc = "256 # replicate 15 2560 @ replicate 16 (0::real)"
  let ?dB = "0 # replicate 15 10 @ replicate 16 (0::real)"
  have v: "valid_inputs stub_kernels (enum_value Spectrum) 0 32"
    by (simp add: valid_inputs_def NumAlgorithms_def stub_kernels_def)
  have w: "windows_left 32 32 0 = Suc 0" "window_count 32 32 = 1"
    by (simp_all add: windows_left_def window_count_def)
  have acc: "accumulated stub_kernels Spectrum 32 (window_coeffs stub_kernels 0 32)
               ?data 0 (windows_left 32 32 0) (replicate 32 0) = ?acc"
    unfolding w accumulated.simps accumulate_def
    by (rule nth_equalityI)
       (auto simp: length_for_vector nth_for_vector nth_append nth_Cons' stub_frame stub_power)
  have dB: "for_vector 16 (\<lambda>i x. 10 * log 10 (x * (4 / (32 * 32) / real_of_int 1))) ?acc = ?dB"
    by (rule nth_equalityI)
       (auto simp: length_for_vector nth_for_vector nth_append nth_Cons')
  have lit: "?dB = [0, 10, 10, 10, 10, 10, 10, 10, 10, 10, 10, 10, 10, 10, 10, 10,
                    0, 0, 0, 0, 0, 0, 0, 0, 0, 0, 0, 0, 0, 0, 0, 0]"
    by (simp add: eval_nat_numeral)
  have scan: "minmax_scan ?dB 0 16 (1000000, - 1000000) = (10, 10)"
    unfolding lit by (simp add: minmax_scan_def minmax_step_def upt_rec)
  have post: "post_Spectrum 16 (4 / (32 * 32)) 1 ?acc = (?dB, 10, 10)"
    by (subst post_Spectrum_eq) (simp_all only: dB scan, simp)
  have le: "(32::nat) \<le> 32" by simp
  have h16: "(32::nat) div 2 = 16" by simp
  have sc: "window_scale 32 (window_coeffs stub_kernels 0 32) = 4 / (32 * 32)"
    using stub_scale [of 32 0] by simp
  have wc: "int (window_count 32 32) = 1" by (simp add: w)
  show ?thesis
    by (simp only: Calculate_ok_curve [OF v le] h16 sc wc acc post_process.simps post prod.case)
       (simp add: SpectrumAnalyst_new_def)
qed

text \<open>
  C6. After a successful \<open>Calculate\<close> with \<open>EnhancedAutocorrelation\<close>, bin \<open>i\<close> of
  the curve is the averaged curve clipped at zero, minus its time-doubled copy (the
  clipped value at \<open>i / 2\<close> for even \<open>i\<close>, the mean of the clipped values at
  \<open>i div 2\<close> and \<open>i div 2 + 1\<close> for odd \<open>i\<close>), clipped at zero again. The reported
  minimum and maximum are those of the first \<open>windowSize / 2\<close> bins of this result, and
  the minimum is not negative.
\<close>

theorem Calculate_EnhancedAutocorrelation:
  assumes v: "valid_inputs k (enum_value EnhancedAutocorrelation) windowFunc windowSize"
    and d: "windowSize \<le> dataLen"
  shows "\<exists>mn mx s'.
     Calculate k s (enum_value EnhancedAutocorrelation) windowFunc windowSize rate data dataLen =
       Some (ReturnTrue mn mx, s') \<and>
     (\<forall>i<windowSize div 2.
        mProcessed s' ! i =
          max 0 (clipped_curve k windowFunc windowSize data dataLen i -
                 time_doubled k windowFunc windowSize data dataLen i)) \<and>
     mn = Min ((!) (mProcessed s') ` {0..<windowSize div 2}) \<and>
     mx = Max ((!) (mProcessed s') ` {0..<windowSize div 2}) \<and>
     0 \<le> mn"
proof -
  let ?half = "windowSize div 2"
  let ?W = "int (window_count windowSize dataLen)"
  let ?acc = "accumulated k EnhancedAutocorrelation windowSize (window_coeffs k windowFunc windowSize)
                data 0 (windows_left windowSize dataLen 0) (replicate windowSize 0)"
  let ?pp = "post_EnhancedAutocorrelation ?half ?W ?acc"
  have half: "0 < ?half" using v by (simp add: valid_inputs_def)
  have len: "?half \<le> length ?acc" by (simp add: length_accumulated)
  have c: "max 0 (?acc ! j / real_of_int ?W) = clipped_curve k windowFunc windowSize data dataLen j"
    if "j < ?half" for j
    using accumulated_nth_curve [OF d that, of k EnhancedAutocorrelation windowFunc data]
    by (simp add: clipped_curve_def averaged_curve_def)
  have nth: "fst ?pp ! i = max 0 (clipped_curve k windowFunc windowSize data dataLen i -
                 time_doubled k windowFunc windowSize data dataLen i)" if i: "i < ?half" for i
  proof -
    have j1: "i div 2 < ?half" using i by simp
    have j2: "i div 2 + 1 < ?half" if "odd i"
    proof -
      from that have "1 \<le> i" by (cases i) simp_all
      then have "i div 2 + 1 \<le> i" by simp
      then show ?thesis using i by simp
    qed
    show ?thesis
    proof (cases "even i")
      case True
      then show ?thesis
        by (simp only: post_EnhancedAutocorrelation_nth [OF len i] c [OF i] c [OF j1]
              time_doubled_def if_True)
    next
      case False
      then show ?thesis
        by (simp only: post_EnhancedAutocorrelation_nth [OF len i] c [OF i] c [OF j1]
              c [OF j2 [OF False]] time_doubled_def if_False)
    qed
  qed
  have mm: "snd ?pp = (Min ((!) (fst ?pp) ` {0..<?half}), Max ((!) (fst ?pp) ` {0..<?half}))"
    by (rule post_EnhancedAutocorrelation_minmax [OF half])
  have "Min ((!) (fst ?pp) ` {0..<?half}) \<in> (!) (fst ?pp) ` {0..<?half}"
    using half by (intro Min_in) simp_all
  then obtain i where "i < ?half" "Min ((!) (fst ?pp) ` {0..<?half}) = fst ?pp ! i" by auto
  then have nonneg: "0 \<le> Min ((!) (fst ?pp) ` {0..<?half})" using nth by simp
  have "Calculate k s (enum_value EnhancedAutocorrelation) windowFunc windowSize rate data dataLen =
          Some (ReturnTrue (fst (snd ?pp)) (snd (snd ?pp)),
                s\<lparr>mProcessed := fst ?pp, mRate := rate, mWindowSize := windowSize,
                   mAlg := EnhancedAutocorrelation\<rparr>)"
    by (subst Calculate_ok_curve [OF v d]) (simp add: case_prod_beta)
  then show ?thesis using nth nonneg by (simp add: mm)
qed

theorem Calculate_EnhancedAutocorrelation_witness:
  "valid_inputs stub_kernels (enum_value EnhancedAutocorrelation) 0 32 \<and> (32::nat) \<le> 48 \<and>
   (\<exists>mn mx s'.
      Calculate stub_kernels SpectrumAnalyst_new (enum_value EnhancedAutocorrelation) 0 32 44100
        (\<lambda>i. real i) 48 = Some (ReturnTrue mn mx, s') \<and>
      mProcessed s' ! 3 =
        max 0 (clipped_curve stub_kernels 0 32 (\<lambda>i. real i) 48 3 -
               time_doubled stub_kernels 0 32 (\<lambda>i. real i) 48 3) \<and>
      0 \<le> mn)"
proof -
  have v: "valid_inputs stub_kernels (enum_value EnhancedAutocorrelation) 0 32"
    by (simp add: valid_inputs_def NumAlgorithms_def stub_kernels_def)
  have le: "(32::nat) \<le> 48" by simp
  have i: "(3::nat) < 32 div 2" by simp
  from Calculate_EnhancedAutocorrelation [OF v le, of SpectrumAnalyst_new 44100 "\<lambda>i. real i"]
  obtain mn mx s' where
    r: "Calculate stub_kernels SpectrumAnalyst_new (enum_value EnhancedAutocorrelation) 0 32 44100
          (\<lambda>i. real i) 48 = Some (ReturnTrue mn mx, s')"
    and b: "\<forall>i<32 div 2. mProcessed s' ! i =
          max 0 (clipped_curve stub_kernels 0 32 (\<lambda>i. real i) 48 i -
                 time_doubled stub_kernels 0 32 (\<lambda>i. real i) 48 i)"
    and m: "0 \<le> mn"
    by auto
  from b [rule_format, OF i] have "mProcessed s' ! 3 =
          max 0 (clipped_curve stub_kernels 0 32 (\<lambda>i. real i) 48 3 -
                 time_doubled stub_kernels 0 32 (\<lambda>i. real i) 48 3)"
    .
  with r m v le show ?thesis by (intro conjI exI) assumption+
qed

text \<open>
  C7. After a successful \<open>Calculate\<close> with \<open>Cepstrum\<close>, bin \<open>i\<close> of the curve is the
  sum over the windows of the transform of each window, divided by the window count; the
  transform of a frame is the inverse real FFT of an array whose \<open>windowSize\<close> entries
  are the natural logarithms of the FFT power of the frame floored at
  \<open>1e-20 * windowSize\<^sup>2\<close>. The reported minimum and maximum are those of bins 4 to
  \<open>windowSize / 2 - 5\<close>; the bins outside stay in the curve, whose size is
  \<open>windowSize / 2\<close>.
\<close>

theorem Calculate_Cepstrum:
  assumes v: "valid_inputs k (enum_value Cepstrum) windowFunc windowSize"
    and d: "windowSize \<le> dataLen"
  shows "\<exists>mn mx s'.
     Calculate k s (enum_value Cepstrum) windowFunc windowSize rate data dataLen =
       Some (ReturnTrue mn mx, s') \<and>
     (\<forall>i<windowSize div 2.
        mProcessed s' ! i =
          accumulated_curve k Cepstrum windowFunc windowSize data dataLen i /
            real (window_count windowSize dataLen)) \<and>
     (\<forall>inb. \<exists>L. transform k Cepstrum windowSize inb = InverseRealFFT k windowSize L \<and>
           (\<forall>j<windowSize. L j = floored_log_power k windowSize inb j)) \<and>
     mn = Min ((!) (mProcessed s') ` {4..<windowSize div 2 - 4}) \<and>
     mx = Max ((!) (mProcessed s') ` {4..<windowSize div 2 - 4}) \<and>
     GetProcessedSize s' = int (windowSize div 2)"
proof -
  let ?half = "windowSize div 2"
  let ?W = "int (window_count windowSize dataLen)"
  let ?acc = "accumulated k Cepstrum windowSize (window_coeffs k windowFunc windowSize)
                data 0 (windows_left windowSize dataLen 0) (replicate windowSize 0)"
  let ?pp = "post_Cepstrum ?half ?W ?acc"
  have "32 \<le> windowSize" using v by (simp add: valid_inputs_def)
  then have half: "4 < ?half - 4" by linarith
  have len: "?half \<le> length ?acc" by (simp add: length_accumulated)
  have nth: "fst ?pp ! i = accumulated_curve k Cepstrum windowFunc windowSize data dataLen i /
            real (window_count windowSize dataLen)" if i: "i < ?half" for i
    using accumulated_nth_curve [OF d i, of k Cepstrum windowFunc data]
    by (simp add: post_Cepstrum_nth [OF len i])
  have size: "length (fst ?pp) = windowSize"
    by (simp add: post_Cepstrum_def Let_def length_for_vector length_accumulated)
  have "Calculate k s (enum_value Cepstrum) windowFunc windowSize rate data dataLen =
          Some (ReturnTrue (fst (snd ?pp)) (snd (snd ?pp)),
                s\<lparr>mProcessed := fst ?pp, mRate := rate, mWindowSize := windowSize,
                   mAlg := Cepstrum\<rparr>)"
    by (subst Calculate_ok_curve [OF v d]) (simp add: case_prod_beta)
  then show ?thesis
    using nth transform_Cepstrum [of k windowSize]
    by (simp add: post_Cepstrum_minmax [OF half] GetProcessedSize_def size)
qed

theorem Calculate_Cepstrum_witness:
  "valid_inputs stub_kernels (enum_value Cepstrum) 0 32 \<and> (32::nat) \<le> 48 \<and>
   (\<exists>mn mx s'.
      Calculate stub_kernels SpectrumAnalyst_new (enum_value Cepstrum) 0 32 44100
        (\<lambda>i. real i) 48 = Some (ReturnTrue mn mx, s') \<and>
      mProcessed s' ! 3 =
        accumulated_curve stub_kernels Cepstrum 0 32 (\<lambda>i. real i) 48 3 / real (window_count 32 48) \<and>
      mn = Min ((!) (mProcessed s') ` {4..<32 div 2 - 4}) \<and>
      GetProcessedSize s' = int (32 div 2))"
proof -
  have v: "valid_inputs stub_kernels (enum_value Cepstrum) 0 32"
    by (simp add: valid_inputs_def NumAlgorithms_def stub_kernels_def)
  have le: "(32::nat) \<le> 48" by simp
  have i: "(3::nat) < 32 div 2" by simp
  from Calculate_Cepstrum [OF v le, of SpectrumAnalyst_new 44100 "\<lambda>i. real i"]
  obtain mn mx s' where
    r: "Calculate stub_kernels SpectrumAnalyst_new (enum_value Cepstrum) 0 32 44100
          (\<lambda>i. real i) 48 = Some (ReturnTrue mn mx, s')"
    and b: "\<forall>i<32 div 2. mProcessed s' ! i =
          accumulated_curve stub_kernels Cepstrum 0 32 (\<lambda>i. real i) 48 i /
            real (window_count 32 48)"
    and m: "mn = Min ((!) (mProcessed s') ` {4..<32 div 2 - 4})"
    and g: "GetProcessedSize s' = int (32 div 2)"
    by auto
  from b [rule_format, OF i] have "mProcessed s' ! 3 =
          accumulated_curve stub_kernels Cepstrum 0 32 (\<lambda>i. real i) 48 3 /
            real (window_count 32 48)"
    .
  with r m g v le show ?thesis by (intro conjI exI) assumption+
qed

subsection \<open>The cubic helpers\<close>

text \<open>
  C9, as stated, fails: for the samples 0, 1, 8, 27 of \<open>x\<^sup>3\<close> the discriminant is zero,
  not negative, and the returned root, the negative zero, is a point where the second
  derivative is zero: an inflection, not a maximum. No operation of the program rounds
  at this input.
\<close>

theorem CubicMaximize_double_root_counterexample:
  "\<not> flt (cubic_discriminant exact_arithmetic (Fin 0) (Fin 1) (Fin 8) (Fin 27)) (Fin 0) \<and>
   CubicMaximize exact_arithmetic (Fin 0) (Fin 1) (Fin 8) (Fin 27) (Fin 5) = (NZero, Fin 0) \<and>
   fit_slope 0 1 8 27 0 = 0 \<and> \<not> fit_curvature 0 1 8 27 0 < 0"
proof -
  have a: "cubic_a exact_arithmetic (Fin 0) (Fin 1) (Fin 8) (Fin 27) = Fin 1"
    by (simp add: cubic_a_def fl_ops)
  have b: "cubic_b exact_arithmetic (Fin 0) (Fin 1) (Fin 8) (Fin 27) = Fin 0"
    by (simp add: cubic_b_def fl_ops)
  have c: "cubic_c exact_arithmetic (Fin 0) (Fin 1) (Fin 8) (Fin 27) = Fin 0"
    by (simp add: cubic_c_def fl_ops)
  have da: "cubic_da exact_arithmetic (Fin 0) (Fin 1) (Fin 8) (Fin 27) = Fin 3"
    by (simp add: cubic_da_def a fl_ops)
  have db: "cubic_db exact_arithmetic (Fin 0) (Fin 1) (Fin 8) (Fin 27) = Fin 0"
    by (simp add: cubic_db_def b fl_ops)
  have d: "cubic_discriminant exact_arithmetic (Fin 0) (Fin 1) (Fin 8) (Fin 27) = Fin 0"
    by (simp add: cubic_discriminant_def da db c fl_ops)
  have dv: "root_divisor exact_arithmetic (Fin 0) (Fin 1) (Fin 8) (Fin 27) = Fin 6"
    by (simp add: root_divisor_def da fl_ops)
  have x1: "upper_root exact_arithmetic (Fin 0) (Fin 1) (Fin 8) (Fin 27) = Fin 0"
    by (simp add: upper_root_def root_store_def root_rounding_def d db dv fl_ops)
  have x2: "lower_root exact_arithmetic (Fin 0) (Fin 1) (Fin 8) (Fin 27) = NZero"
    by (simp add: lower_root_def root_store_def root_rounding_def d db dv fl_ops)
  have ch: "chosen_root exact_arithmetic (Fin 0) (Fin 1) (Fin 8) (Fin 27) = NZero"
    by (simp add: chosen_root_def curvature_test_def x1 x2 dv db fl_ops)
  have v: "cubic_at exact_arithmetic (Fin 1) (Fin 0) (Fin 0) (Fin 0) NZero = Fin 0"
    by (simp add: cubic_at_def fl_ops)
  have nd: "\<not> flt (cubic_discriminant exact_arithmetic (Fin 0) (Fin 1) (Fin 8) (Fin 27)) (Fin 0)"
    by (simp add: d flt_def)
  have cm: "CubicMaximize exact_arithmetic (Fin 0) (Fin 1) (Fin 8) (Fin 27) (Fin 5) = (NZero, Fin 0)"
    by (simp add: CubicMaximize_unfold nd ch a b c v)
  have s: "fit_slope 0 1 8 27 0 = 0" by (simp add: fit_slope_def fit_c_def)
  have k: "\<not> fit_curvature 0 1 8 27 0 < 0" by (simp add: fit_curvature_def fit_b_def)
  from nd cm s k show ?thesis by (intro conjI)
qed

text \<open>
  C9, amended. When the computed discriminant is negative, \<open>CubicMaximize\<close> returns -1
  and stores nothing. Otherwise it returns one of the two computed quotients
  \<open>(-db \<plusminus> sqrt(discriminant)) / (2 * da)\<close>: the one with \<open>+\<close> when the computed
  \<open>2 * da * x1 + db\<close> is negative, the one with \<open>-\<close> when it is not, and stores the
  computed value of the cubic there. This holds for every rounding; the quotient may be
  -1 itself, infinite or NaN.

  In exact arithmetic, on finite samples: when the discriminant of the derivative is
  negative the result is the sentinel; when it is positive and the leading coefficient
  is not zero, the result is the root of the derivative at which the second derivative
  is negative, with the value of the cubic there; when it is zero and the leading
  coefficient is not zero, the result is the double root of the derivative, where the
  second derivative is zero, with the value of the cubic there.
\<close>

theorem CubicMaximize_cases:
  "(flt (cubic_discriminant r y0 y1 y2 y3) (Fin 0) \<longrightarrow>
      CubicMaximize r y0 y1 y2 y3 m = (Fin (- 1), m)) \<and>
   (\<not> flt (cubic_discriminant r y0 y1 y2 y3) (Fin 0) \<longrightarrow>
      CubicMaximize r y0 y1 y2 y3 m =
        (chosen_root r y0 y1 y2 y3,
         cubic_at r (cubic_a r y0 y1 y2 y3) (cubic_b r y0 y1 y2 y3) (cubic_c r y0 y1 y2 y3) y0
           (chosen_root r y0 y1 y2 y3))) \<and>
   (fit_discriminant u0 u1 u2 u3 < 0 \<longrightarrow>
      CubicMaximize exact_arithmetic (Fin u0) (Fin u1) (Fin u2) (Fin u3) m = (Fin (- 1), m)) \<and>
   (0 < fit_discriminant u0 u1 u2 u3 \<and> fit_a u0 u1 u2 u3 \<noteq> 0 \<longrightarrow>
      (\<exists>x v. CubicMaximize exact_arithmetic (Fin u0) (Fin u1) (Fin u2) (Fin u3) m = (x, v) \<and>
             is_finite x \<and> is_finite v \<and> fit_slope u0 u1 u2 u3 (fnum x) = 0 \<and>
             fit_curvature u0 u1 u2 u3 (fnum x) < 0 \<and>
             fnum v = fit_value u0 u1 u2 u3 (fnum x))) \<and>
   (fit_discriminant u0 u1 u2 u3 = 0 \<and> fit_a u0 u1 u2 u3 \<noteq> 0 \<longrightarrow>
      (\<exists>x v. CubicMaximize exact_arithmetic (Fin u0) (Fin u1) (Fin u2) (Fin u3) m = (x, v) \<and>
             is_finite x \<and> is_finite v \<and> fit_slope u0 u1 u2 u3 (fnum x) = 0 \<and>
             fit_curvature u0 u1 u2 u3 (fnum x) = 0 \<and>
             fnum v = fit_value u0 u1 u2 u3 (fnum x)))"
proof (intro conjI impI)
  assume "flt (cubic_discriminant r y0 y1 y2 y3) (Fin 0)"
  then show "CubicMaximize r y0 y1 y2 y3 m = (Fin (- 1), m)"
    by (simp add: CubicMaximize_unfold)
next
  assume "\<not> flt (cubic_discriminant r y0 y1 y2 y3) (Fin 0)"
  then show "CubicMaximize r y0 y1 y2 y3 m =
        (chosen_root r y0 y1 y2 y3,
         cubic_at r (cubic_a r y0 y1 y2 y3) (cubic_b r y0 y1 y2 y3) (cubic_c r y0 y1 y2 y3) y0
           (chosen_root r y0 y1 y2 y3))"
    by (simp add: CubicMaximize_unfold)
next
  assume "fit_discriminant u0 u1 u2 u3 < 0"
  then show "CubicMaximize exact_arithmetic (Fin u0) (Fin u1) (Fin u2) (Fin u3) m = (Fin (- 1), m)"
    by (rule CubicMaximize_exact_sentinel)
next
  assume h: "0 < fit_discriminant u0 u1 u2 u3 \<and> fit_a u0 u1 u2 u3 \<noteq> 0"
  then have a: "fit_a u0 u1 u2 u3 \<noteq> 0" and d: "0 \<le> fit_discriminant u0 u1 u2 u3"
    by simp_all
  from CubicMaximize_exact_root [OF a d, of m] obtain x v where
    r: "CubicMaximize exact_arithmetic (Fin u0) (Fin u1) (Fin u2) (Fin u3) m = (x, v)"
      "is_finite x" "is_finite v" "fit_slope u0 u1 u2 u3 (fnum x) = 0"
      "fit_curvature u0 u1 u2 u3 (fnum x) = - sqrt (fit_discriminant u0 u1 u2 u3)"
      "fnum v = fit_value u0 u1 u2 u3 (fnum x)"
    by blast
  have k: "fit_curvature u0 u1 u2 u3 (fnum x) < 0" using h by (simp add: r(5))
  from r(1-4) k r(6)
  show "\<exists>x v. CubicMaximize exact_arithmetic (Fin u0) (Fin u1) (Fin u2) (Fin u3) m = (x, v) \<and>
             is_finite x \<and> is_finite v \<and> fit_slope u0 u1 u2 u3 (fnum x) = 0 \<and>
             fit_curvature u0 u1 u2 u3 (fnum x) < 0 \<and>
             fnum v = fit_value u0 u1 u2 u3 (fnum x)"
    by (intro exI conjI)
next
  assume h: "fit_discriminant u0 u1 u2 u3 = 0 \<and> fit_a u0 u1 u2 u3 \<noteq> 0"
  then have a: "fit_a u0 u1 u2 u3 \<noteq> 0" and d: "0 \<le> fit_discriminant u0 u1 u2 u3"
    by simp_all
  from CubicMaximize_exact_root [OF a d, of m] obtain x v where
    r: "CubicMaximize exact_arithmetic (Fin u0) (Fin u1) (Fin u2) (Fin u3) m = (x, v)"
      "is_finite x" "is_finite v" "fit_slope u0 u1 u2 u3 (fnum x) = 0"
      "fit_curvature u0 u1 u2 u3 (fnum x) = - sqrt (fit_discriminant u0 u1 u2 u3)"
      "fnum v = fit_value u0 u1 u2 u3 (fnum x)"
    by blast
  have k: "fit_curvature u0 u1 u2 u3 (fnum x) = 0" using h by (simp add: r(5))
  from r(1-4) k r(6)
  show "\<exists>x v. CubicMaximize exact_arithmetic (Fin u0) (Fin u1) (Fin u2) (Fin u3) m = (x, v) \<and>
             is_finite x \<and> is_finite v \<and> fit_slope u0 u1 u2 u3 (fnum x) = 0 \<and>
             fit_curvature u0 u1 u2 u3 (fnum x) = 0 \<and>
             fnum v = fit_value u0 u1 u2 u3 (fnum x)"
    by (intro exI conjI)
qed

theorem CubicMaximize_cases_witness:
  "flt (cubic_discriminant exact_arithmetic (Fin 0) (Fin 1) (Fin 2) (Fin 4)) (Fin 0) \<and>
   fit_discriminant 0 1 2 4 < 0 \<and>
   CubicMaximize exact_arithmetic (Fin 0) (Fin 1) (Fin 2) (Fin 4) (Fin 7) = (Fin (- 1), Fin 7) \<and>
   \<not> flt (cubic_discriminant exact_arithmetic (Fin 0) (Fin 37) (Fin 38) (Fin 27)) (Fin 0) \<and>
   0 < fit_discriminant 0 37 38 27 \<and> fit_a 0 37 38 27 \<noteq> 0 \<and>
   (\<exists>x v. CubicMaximize exact_arithmetic (Fin 0) (Fin 37) (Fin 38) (Fin 27) (Fin 7) = (x, v) \<and>
          is_finite x \<and> is_finite v \<and> fit_slope 0 37 38 27 (fnum x) = 0 \<and>
          fit_curvature 0 37 38 27 (fnum x) < 0 \<and> fnum v = fit_value 0 37 38 27 (fnum x)) \<and>
   fit_discriminant 0 1 8 27 = 0 \<and> fit_a 0 1 8 27 \<noteq> 0 \<and>
   (\<exists>x v. CubicMaximize exact_arithmetic (Fin 0) (Fin 1) (Fin 8) (Fin 27) (Fin 7) = (x, v) \<and>
          is_finite x \<and> is_finite v \<and> fit_slope 0 1 8 27 (fnum x) = 0 \<and>
          fit_curvature 0 1 8 27 (fnum x) = 0 \<and> fnum v = fit_value 0 1 8 27 (fnum x))"
proof -
  have h1: "fit_discriminant 0 1 2 4 < 0"
    by (simp add: fit_discriminant_def fit_a_def fit_b_def fit_c_def)
  have f1: "flt (cubic_discriminant exact_arithmetic (Fin 0) (Fin 1) (Fin 2) (Fin 4)) (Fin 0)"
    using h1 by (simp add: flt_finite cubic_discriminant_exact)
  have h2: "0 < fit_discriminant 0 37 38 27 \<and> fit_a 0 37 38 27 \<noteq> 0"
    by (simp add: fit_discriminant_def fit_a_def fit_b_def fit_c_def)
  have f2: "\<not> flt (cubic_discriminant exact_arithmetic (Fin 0) (Fin 37) (Fin 38) (Fin 27)) (Fin 0)"
    using h2 by (simp add: flt_finite cubic_discriminant_exact)
  have h3: "fit_discriminant 0 1 8 27 = 0 \<and> fit_a 0 1 8 27 \<noteq> 0"
    by (simp add: fit_discriminant_def fit_a_def fit_b_def fit_c_def)
  from CubicMaximize_cases [of exact_arithmetic "Fin 0" "Fin 1" "Fin 2" "Fin 4" "Fin 7" 0 1 2 4] h1 f1
  have c1: "CubicMaximize exact_arithmetic (Fin 0) (Fin 1) (Fin 2) (Fin 4) (Fin 7) = (Fin (- 1), Fin 7)"
    by (elim conjE) simp
  from CubicMaximize_cases [of exact_arithmetic "Fin 0" "Fin 37" "Fin 38" "Fin 27" "Fin 7" 0 37 38 27] h2
  have c2: "\<exists>x v. CubicMaximize exact_arithmetic (Fin 0) (Fin 37) (Fin 38) (Fin 27) (Fin 7) = (x, v) \<and>
          is_finite x \<and> is_finite v \<and> fit_slope 0 37 38 27 (fnum x) = 0 \<and>
          fit_curvature 0 37 38 27 (fnum x) < 0 \<and> fnum v = fit_value 0 37 38 27 (fnum x)"
    by (elim conjE) simp
  from CubicMaximize_cases [of exact_arithmetic "Fin 0" "Fin 1" "Fin 8" "Fin 27" "Fin 7" 0 1 8 27] h3
  have c3: "\<exists>x v. CubicMaximize exact_arithmetic (Fin 0) (Fin 1) (Fin 8) (Fin 27) (Fin 7) = (x, v) \<and>
          is_finite x \<and> is_finite v \<and> fit_slope 0 1 8 27 (fnum x) = 0 \<and>
          fit_curvature 0 1 8 27 (fnum x) = 0 \<and> fnum v = fit_value 0 1 8 27 (fnum x)"
    by (elim conjE) simp
  from h2 have h2a: "0 < fit_discriminant 0 37 38 27" and h2b: "fit_a 0 37 38 27 \<noteq> 0"
    by simp_all
  from h3 have h3a: "fit_discriminant 0 1 8 27 = 0" and h3b: "fit_a 0 1 8 27 \<noteq> 0"
    by simp_all
  from f1 h1 c1 f2 h2a h2b c2 h3a h3b c3 show ?thesis by (intro conjI)
qed

text \<open>
  C10. \<open>CubicMaximize\<close> divides by \<open>2 * da = 2 * (3 * a)\<close> with no test of \<open>a\<close>.
  Whenever the computed \<open>a\<close> is a zero and the computed discriminant is not negative,
  the divisor is a zero, the sentinel branch is not taken, and the quotient by zero is
  what the function returns: an infinity or NaN, never a position. Four samples equal to
  zero are such an input, with every rounding: the result is NaN.
\<close>

theorem CubicMaximize_divides_by_zero:
  "(is_zero (cubic_a r y0 y1 y2 y3) \<and> \<not> flt (cubic_discriminant r y0 y1 y2 y3) (Fin 0) \<longrightarrow>
      is_zero (root_divisor r y0 y1 y2 y3) \<and>
      \<not> is_finite (fst (CubicMaximize r y0 y1 y2 y3 m))) \<and>
   is_zero (cubic_a r (Fin 0) (Fin 0) (Fin 0) (Fin 0)) \<and>
   \<not> flt (cubic_discriminant r (Fin 0) (Fin 0) (Fin 0) (Fin 0)) (Fin 0) \<and>
   CubicMaximize r (Fin 0) (Fin 0) (Fin 0) (Fin 0) m = (NaN, NaN)"
proof (intro conjI impI)
  assume h: "is_zero (cubic_a r y0 y1 y2 y3) \<and> \<not> flt (cubic_discriminant r y0 y1 y2 y3) (Fin 0)"
  then show z: "is_zero (root_divisor r y0 y1 y2 y3)"
    by (simp add: root_divisor_def cubic_da_def fmul_zero)
  show "\<not> is_finite (fst (CubicMaximize r y0 y1 y2 y3 m))"
    using h chosen_root_not_finite [OF z] by (simp add: CubicMaximize_unfold)
next
  show "is_zero (cubic_a r (Fin 0) (Fin 0) (Fin 0) (Fin 0))"
    by (simp add: zero_samples is_zero_def)
  show "\<not> flt (cubic_discriminant r (Fin 0) (Fin 0) (Fin 0) (Fin 0)) (Fin 0)"
    by (simp add: zero_samples_discriminant flt_def)
  show "CubicMaximize r (Fin 0) (Fin 0) (Fin 0) (Fin 0) m = (NaN, NaN)"
    by (rule CubicMaximize_zero_samples)
qed

theorem CubicMaximize_divides_by_zero_witness:
  "is_zero (cubic_a exact_arithmetic (Fin 0) (Fin 1) (Fin 1) (Fin 0)) \<and>
   \<not> flt (cubic_discriminant exact_arithmetic (Fin 0) (Fin 1) (Fin 1) (Fin 0)) (Fin 0) \<and>
   is_zero (root_divisor exact_arithmetic (Fin 0) (Fin 1) (Fin 1) (Fin 0)) \<and>
   \<not> is_finite (fst (CubicMaximize exact_arithmetic (Fin 0) (Fin 1) (Fin 1) (Fin 0) (Fin 0)))"
proof -
  have a: "is_zero (cubic_a exact_arithmetic (Fin 0) (Fin 1) (Fin 1) (Fin 0))"
    by (simp add: cubic_a_def fl_ops is_zero_def)
  have "fit_discriminant 0 1 1 0 = 1"
    by (simp add: fit_discriminant_def fit_a_def fit_b_def fit_c_def)
  then have d: "\<not> flt (cubic_discriminant exact_arithmetic (Fin 0) (Fin 1) (Fin 1) (Fin 0)) (Fin 0)"
    by (simp add: flt_finite cubic_discriminant_exact)
  from CubicMaximize_divides_by_zero [of exact_arithmetic "Fin 0" "Fin 1" "Fin 1" "Fin 0" "Fin 0"] a d
  show ?thesis by (elim conjE) simp
qed

subsection \<open>Queries\<close>




text \<open>
  C4, as stated, fails: a sample that equals its right neighbour is taken as a peak. On
  the curve 0, 0, 0, 0, 1, 1, 3, 4, ..., 12 no sample among the indices 1 to 14 is
  strictly greater than both its neighbours, yet \<open>FindPeak\<close> returns the position 4
  with the value 1, not the zero pair. No operation that decides the result rounds at
  this input.
\<close>

theorem FindPeak_plateau_counterexample:
  "strict_local_maxima (mProcessed peak_state) 1 14 = [] \<and>
   GetProcessedSize peak_state = 16 \<and>
   FindPeak exact_arithmetic peak_state (Fin 10) = (Fin 4, Fin 1)"
proof -
  have m: "strict_local_maxima (mProcessed peak_state) 1 14 = []"
    by (simp add: strict_local_maxima_def peak_state_def upt_rec)
  have n: "GetProcessedSize peak_state = 16"
    by (simp add: GetProcessedSize_def peak_state_def)
  have h: "rises (mProcessed peak_state) 2 = rises (mProcessed peak_state) 1"
    by (simp add: rises_def peak_state_def)
  have f: "FindPeak exact_arithmetic peak_state (Fin 10) = (Fin 4, Fin 1)"
    by (simp add: FindPeak_select [OF h] peak_bins_peak_state candidate_peak_state distance_def
          fl_ops)
  from m n f show ?thesis by (intro conjI)
qed

text \<open>
  C4, amended. On a curve whose step into sample 2 has the direction of its step into
  sample 1, \<open>FindPeak\<close> forms a candidate at each bin from 3 to \<open>size - 2\<close> into which
  the curve does not rise although it rose into the bin before (\<open>peak_bins\<close>): the
  converted position and the value from \<open>CubicMaximize\<close> on the four samples around
  the bin. The candidates are visited in scan order up to and including the first one
  that is nearer to the query than 1000000 and than every candidate before it, and lies
  above the query. The result is a visited candidate whose computed distance to the
  query is below 1000000 and is not exceeded downwards by that of any visited candidate;
  it is the zero pair when no visited candidate is nearer than 1000000, in particular
  when there is no candidate. A candidate whose position is NaN or infinite is never
  nearer. This holds for every rounding.
\<close>

theorem FindPeak_nearest_visited:
  assumes "rises (mProcessed s) 2 = rises (mProcessed s) 1"
  shows "(peak_bins s = [] \<longrightarrow> FindPeak r s xPos = (Fin 0, Fin 0)) \<and>
         ((FindPeak r s xPos = (Fin 0, Fin 0) \<and>
           (\<forall>c\<in>set (visited r xPos (Fin 1000000) (map (candidate r s) (peak_bins s))).
              \<not> flt (distance r xPos c) (Fin 1000000))) \<or>
          (FindPeak r s xPos \<in> set (visited r xPos (Fin 1000000) (map (candidate r s) (peak_bins s))) \<and>
           flt (distance r xPos (FindPeak r s xPos)) (Fin 1000000) \<and>
           (\<forall>c\<in>set (visited r xPos (Fin 1000000) (map (candidate r s) (peak_bins s))).
              \<not> flt (distance r xPos c) (distance r xPos (FindPeak r s xPos)))))"
proof -
  obtain bp bd bv where
    sb: "select_best r xPos (map (candidate r s) (peak_bins s)) (Fin 0, Fin 1000000, Fin 0) =
           (bp, bd, bv)"
    by (cases "select_best r xPos (map (candidate r s) (peak_bins s)) (Fin 0, Fin 1000000, Fin 0)")
  have fp: "FindPeak r s xPos = (bp, bv)"
    by (simp add: FindPeak_select [OF assms] sb)
  have e: "peak_bins s = [] \<longrightarrow> (bp, bv) = (Fin 0, Fin 0)" using sb by auto
  from select_best_visited [OF sb] show ?thesis unfolding fp using e by auto
qed

theorem FindPeak_nearest_visited_witness:
  "rises (mProcessed peaks_state) 2 = rises (mProcessed peaks_state) 1 \<and>
   peak_bins peaks_state = [4, 7, 10, 12] \<and>
   visited exact_arithmetic (Fin 8) (Fin 1000000)
     (map (candidate exact_arithmetic peaks_state) (peak_bins peaks_state)) =
     [(Fin 3, Fin 2), (NaN, NaN), (Fin 9, Fin 3)] \<and>
   FindPeak exact_arithmetic peaks_state (Fin 8) = (Fin 9, Fin 3)"
proof -
  have h: "rises (mProcessed peaks_state) 2 = rises (mProcessed peaks_state) 1"
    by (simp add: rises_def peaks_state_def)
  have d: "distance exact_arithmetic (Fin 8) (Fin 3, Fin 2) = Fin 5"
    "distance exact_arithmetic (Fin 8) (NaN, NaN) = NaN"
    "distance exact_arithmetic (Fin 8) (Fin 9, Fin 3) = Fin 1"
    by (simp_all add: distance_def fl_ops)
  have v: "visited exact_arithmetic (Fin 8) (Fin 1000000)
     (map (candidate exact_arithmetic peaks_state) (peak_bins peaks_state)) =
     [(Fin 3, Fin 2), (NaN, NaN), (Fin 9, Fin 3)]"
    by (simp add: peak_bins_peaks_state candidates_peaks_state d flt_def)
  from FindPeak_nearest_visited [OF h, of exact_arithmetic "Fin 8"]
  have fp: "FindPeak exact_arithmetic peaks_state (Fin 8) = (Fin 9, Fin 3)"
    unfolding v by (auto simp add: d flt_def)
  from h peak_bins_peaks_state v fp show ?thesis by (intro conjI)
qed

end
